theory Spec2Isabelle
  imports Main
begin

section \<open>Data model\<close>

text \<open>
  The orchestrator of \<^verbatim>\<open>internal/application/orchestrator\<close>: the graph validator
  (\<^verbatim>\<open>validator.go\<close>) and the execution manager (\<^verbatim>\<open>manager.go\<close>), over the state
  store (\<^verbatim>\<open>pkg/adapters/storage\<close>) and the event bus they are given.
\<close>

text \<open>
  Modelled from the spec: the domain types of the library \<^verbatim>\<open>dago-libs\<close>, which is not in
  the source tree (the graph, its nodes and edges, the execution record and the node
  states, the statuses, the events). Their fields and constructors are the ones the
  orchestrator's code names; the node variants are the four of the specification.
\<close>

datatype node_type = NodeTypeStart | NodeTypeExecutor | NodeTypeRouter | NodeTypeEnd

text \<open>
  A \<^verbatim>\<open>graph.Node\<close> is an interface value: it may be nil, and otherwise has a type and
  a \<^verbatim>\<open>Validate\<close> hook whose error (if any) the validator passes on.
\<close>

datatype node = NilNode | Node node_type "string option"

record edge =
  From :: string
  To :: string
  Label :: string

text \<open>
  \<^verbatim>\<open>Nodes\<close> is a Go map. It is kept as an association list whose order is the order in
  which \<^verbatim>\<open>range\<close> visits it; lookups go through \<open>map_of\<close>.
\<close>

record graph =
  ID :: string
  Version :: string
  Nodes :: "(string \<times> node) list"
  Edges :: "edge list"
  EntryNode :: string

datatype ExecutionStatus =
    ExecutionStatusPending
  | ExecutionStatusSubmitted
  | ExecutionStatusRunning
  | ExecutionStatusCompleted
  | ExecutionStatusFailed
  | ExecutionStatusCancelled

text \<open>An \<^verbatim>\<open>interface{}\<close> value decoded from JSON.\<close>

datatype any = ANil | AStr string | ANum int | ABool bool | AList "any list"
  | AMap "(string \<times> any) list"

text \<open>
  \<^verbatim>\<open>domain.NodeState\<close>. The fields \<^verbatim>\<open>Status\<close>, \<^verbatim>\<open>StartedAt\<close>, \<^verbatim>\<open>CompletedAt\<close> and
  \<^verbatim>\<open>Error\<close> carry the prefix \<open>Node\<close>, since \<^verbatim>\<open>domain.GraphState\<close> has fields of the same
  names. Times are natural numbers; a nil \<^verbatim>\<open>*time.Time\<close> is \<open>None\<close>.
\<close>

record NodeState =
  NodeID :: string
  NodeStatus :: ExecutionStatus
  NodeStartedAt :: "nat option"
  NodeCompletedAt :: "nat option"
  Output :: any
  NodeError :: string

text \<open>
  \<^verbatim>\<open>domain.GraphState\<close>, the execution record. Execution ids are the values minted by
  \<^verbatim>\<open>uuid.New()\<close>, modelled as numbers drawn from a counter.
\<close>

record GraphState =
  GraphID :: nat
  Graph :: graph
  Status :: ExecutionStatus
  Inputs :: "string \<rightharpoonup> any"
  NodeStates :: "string \<rightharpoonup> NodeState"
  SubmittedAt :: nat
  StartedAt :: "nat option"
  CompletedAt :: "nat option"
  Error :: string

datatype node_error = NodeIDRequired | NodeIsNil | NodeValidateError string

datatype error =
    GraphIsNil
  | GraphIDRequired
  | GraphVersionRequired
  | GraphNoNodes
  | InvalidNode string node_error
  | DuplicateNodeID string
  | EntryNodeNotFound string
  | EdgeSourceMissing string
  | EdgeTargetMissing string
  | ValidationFailed error
  | SaveStateFailed error
  | StateNotFound nat
  | GetStateFailed error
  | PublishRejected
  | PublishWorkFailed error
  | NodeNotFound string
  | ExecutionNotFound nat
  | AlreadyTerminal ExecutionStatus
  | NilNodeStatePanic string

section \<open>Graph validator\<close>

definition validateNode :: "string \<Rightarrow> node \<Rightarrow> node_error option" where
  "validateNode nodeID n =
     (if nodeID = [] then Some NodeIDRequired
      else case n of
             NilNode \<Rightarrow> Some NodeIsNil
           | Node t v \<Rightarrow> (case v of Some e \<Rightarrow> Some (NodeValidateError e) | None \<Rightarrow> None))"

text \<open>
  The loop over \<^verbatim>\<open>g.Nodes\<close> of \<^verbatim>\<open>Validate\<close>; \<open>nodeIDs\<close> is its local
  \<^verbatim>\<open>map[string]bool\<close>.
\<close>

fun validateNodes :: "(string \<times> node) list \<Rightarrow> (string \<Rightarrow> bool) \<Rightarrow> error option" where
  "validateNodes [] nodeIDs = None"
| "validateNodes ((nodeID, n) # rest) nodeIDs =
     (case validateNode nodeID n of
        Some e \<Rightarrow> Some (InvalidNode nodeID e)
      | None \<Rightarrow>
          if nodeIDs nodeID then Some (DuplicateNodeID nodeID)
          else validateNodes rest (nodeIDs(nodeID := True)))"

text \<open>The loop over \<^verbatim>\<open>g.Edges\<close> of \<^verbatim>\<open>Validate\<close>.\<close>

fun validateEdges :: "edge list \<Rightarrow> (string \<times> node) list \<Rightarrow> error option" where
  "validateEdges [] ns = None"
| "validateEdges (e # es) ns =
     (if map_of ns (From e) = None then Some (EdgeSourceMissing (From e))
      else if map_of ns (To e) = None then Some (EdgeTargetMissing (To e))
      else validateEdges es ns)"

text \<open>\<^verbatim>\<open>Validate\<close> takes a pointer: \<open>None\<close> is the nil graph.\<close>

definition Validate :: "graph option \<Rightarrow> error option" where
  "Validate gp =
     (case gp of
        None \<Rightarrow> Some GraphIsNil
      | Some g \<Rightarrow>
          if ID g = [] then Some GraphIDRequired
          else if Version g = [] then Some GraphVersionRequired
          else if length (Nodes g) = 0 then Some GraphNoNodes
          else (case validateNodes (Nodes g) (\<lambda>_. False) of
                  Some e \<Rightarrow> Some e
                | None \<Rightarrow>
                    (if EntryNode g \<noteq> [] \<and> map_of (Nodes g) (EntryNode g) = None
                     then Some (EntryNodeNotFound (EntryNode g))
                     else validateEdges (Edges g) (Nodes g))))"

section \<open>Events, store, tracker\<close>

datatype EventType =
    EventTypeGraphSubmitted
  | EventTypeGraphCompleted
  | EventTypeGraphFailed
  | EventTypeGraphCancelled
  | EventTypeNodeStarted
  | EventTypeNodeWork
  | EventTypeNodeCompleted

text \<open>The values the manager puts under the keys of an event's \<^verbatim>\<open>Data\<close>.\<close>

datatype data_value =
    VAny any
  | VExecID nat
  | VNodeType node_type
  | VInputs "string \<rightharpoonup> any"
  | VNodeStates "string \<rightharpoonup> NodeState"

text \<open>
  \<^verbatim>\<open>ports.Event\<close>; its field \<^verbatim>\<open>ID\<close> is \<open>EventID\<close> here (the graph has an \<open>ID\<close>). A
  nil \<^verbatim>\<open>Data\<close> map reads as the empty map.
\<close>

record Event =
  EventID :: nat
  Type :: EventType
  Timestamp :: nat
  ExecutionID :: nat
  Data :: "string \<rightharpoonup> data_value"

definition TopicExecutorWork :: string where "TopicExecutorWork = ''executor.work''"
definition TopicRouterWork :: string where "TopicRouterWork = ''router.work''"
definition TopicNodeCompleted :: string where "TopicNodeCompleted = ''node.completed''"
definition TopicGraphEvents :: string where "TopicGraphEvents = ''graph.events''"

text \<open>
  \<^verbatim>\<open>executionContext\<close>, the tracker entry. Its \<^verbatim>\<open>cancelFunc\<close> cancels the deadline
  context made for the same execution, which the world keeps under the execution's id.
  The state kept there is that of the context and of the monitor goroutine waiting on
  it: the context is active and the monitor waits; the context is cancelled (the monitor
  returns without doing anything); the deadline is exceeded and the monitor has not run
  yet; the deadline is exceeded and the monitor has run.
\<close>

record executionContext =
  graphID :: nat
  status :: ExecutionStatus
  startedAt :: nat

datatype ctx_state = CtxActive | CtxCanceled | CtxDeadlineExceeded | CtxHandled

datatype metric =
    RecordGraphSubmitted ExecutionStatus
  | RecordGraphCompleted ExecutionStatus nat

text \<open>
  Everything a manager operation reads or writes:
  \<^item> \<open>states\<close>: the state store, by execution id. It holds values: \<^verbatim>\<open>SaveState\<close>
    stores what the record is at the call. The Redis adapter serialises the record; the
    in-memory adapter hands out the stored record itself, and the manager saves after
    every change it makes to a record, so that at the end of an operation both hold the
    same;
  \<^item> \<open>executions\<close>: the manager's \<^verbatim>\<open>sync.Map\<close> of tracked executions;
  \<^item> \<open>contexts\<close>: the deadline contexts made by \<^verbatim>\<open>context.WithTimeout\<close>;
  \<^item> \<open>published\<close>: the events the bus has accepted, with their topics, in order;
  \<^item> \<open>bus_rejects\<close>: whether \<^verbatim>\<open>Publish\<close> of this event on this topic returns an error;
  \<^item> \<open>metrics\<close>: the calls made on the metrics collector;
  \<^item> \<open>next_uuid\<close>: the supply of \<^verbatim>\<open>uuid.New()\<close>, which never repeats a value;
  \<^item> \<open>clock\<close>: what \<^verbatim>\<open>time.Now()\<close> reads; an operation takes no time.
\<close>

record world =
  states :: "nat \<rightharpoonup> GraphState"
  executions :: "nat \<rightharpoonup> executionContext"
  contexts :: "nat \<rightharpoonup> ctx_state"
  published :: "(string \<times> Event) list"
  bus_rejects :: "string \<Rightarrow> Event \<Rightarrow> bool"
  metrics :: "metric list"
  next_uuid :: nat
  clock :: nat

definition uuid_New :: "world \<Rightarrow> nat \<times> world" where
  "uuid_New w = (next_uuid w, w\<lparr>next_uuid := Suc (next_uuid w)\<rparr>)"

text \<open>
  \<^verbatim>\<open>SaveState\<close> and \<^verbatim>\<open>GetState\<close> of the in-memory storage adapter: saving a graph state
  under its own id does not fail, loading fails when there is nothing under the id.
\<close>

definition SaveState :: "world \<Rightarrow> GraphState \<Rightarrow> error option \<times> world" where
  "SaveState w st = (None, w\<lparr>states := (states w)(GraphID st \<mapsto> st)\<rparr>)"

definition GetState :: "world \<Rightarrow> nat \<Rightarrow> error + GraphState" where
  "GetState w gid = (case states w gid of None \<Rightarrow> Inl (StateNotFound gid) | Some st \<Rightarrow> Inr st)"

definition Publish :: "world \<Rightarrow> string \<Rightarrow> Event \<Rightarrow> error option \<times> world" where
  "Publish w topic ev =
     (if bus_rejects w topic ev then (Some PublishRejected, w)
      else (None, w\<lparr>published := published w @ [(topic, ev)]\<rparr>))"

definition cancelFunc :: "world \<Rightarrow> nat \<Rightarrow> world" where
  "cancelFunc w gid =
     (case contexts w gid of
        Some CtxActive \<Rightarrow> w\<lparr>contexts := (contexts w)(gid \<mapsto> CtxCanceled)\<rparr>
      | _ \<Rightarrow> w)"

text \<open>
  Modelled from the spec: \<^verbatim>\<open>Graph.GetNode\<close> and \<^verbatim>\<open>Graph.GetOutgoingEdges\<close> of
  \<^verbatim>\<open>dago-libs\<close>, which are not in the source tree. \<^verbatim>\<open>GetNode\<close> is the lookup in
  \<^verbatim>\<open>nodes\<close>, nil when the id is absent; \<^verbatim>\<open>GetOutgoingEdges\<close> gives the edges whose
  \<^verbatim>\<open>from\<close> is the node, in \<^verbatim>\<open>edges\<close> order.
\<close>

definition GetNode :: "graph \<Rightarrow> string \<Rightarrow> node" where
  "GetNode g nodeID = (case map_of (Nodes g) nodeID of None \<Rightarrow> NilNode | Some n \<Rightarrow> n)"

definition GetOutgoingEdges :: "graph \<Rightarrow> string \<Rightarrow> edge list" where
  "GetOutgoingEdges g nodeID = filter (\<lambda>e. From e = nodeID) (Edges g)"

section \<open>Execution manager\<close>

definition findNextNode :: "graph \<Rightarrow> string \<Rightarrow> string" where
  "findNextNode g currentNodeID =
     (case GetOutgoingEdges g currentNodeID of [] \<Rightarrow> [] | e # _ \<Rightarrow> To e)"

text \<open>The event that \<^verbatim>\<open>publishGraphEvent\<close> builds.\<close>

definition graph_event :: "nat \<Rightarrow> nat \<Rightarrow> nat \<Rightarrow> EventType \<Rightarrow> (string \<rightharpoonup> data_value) \<Rightarrow> Event" where
  "graph_event i now gid eventType d =
     \<lparr>EventID = i, Type = eventType, Timestamp = now, ExecutionID = gid, Data = d\<rparr>"

definition publishGraphEvent ::
  "world \<Rightarrow> nat \<Rightarrow> EventType \<Rightarrow> (string \<rightharpoonup> data_value) \<Rightarrow> error option \<times> world" where
  "publishGraphEvent w gid eventType d =
     (case uuid_New w of
        (i, w1) \<Rightarrow> Publish w1 TopicGraphEvents (graph_event i (clock w1) gid eventType d))"

definition completeGraph ::
  "world \<Rightarrow> nat \<Rightarrow> GraphState \<Rightarrow> ExecutionStatus \<Rightarrow> string \<Rightarrow> GraphState \<times> world" where
  "completeGraph w gid st s errorMsg =
     (let st1 = st\<lparr>Status := s, CompletedAt := Some (clock w),
                    Error := (if errorMsg \<noteq> [] then errorMsg else Error st)\<rparr>;
          w1 = snd (SaveState w st1);
          w2 = (case executions w1 gid of
                  Some execCtx \<Rightarrow> (cancelFunc w1 gid)\<lparr>executions := (executions w1)(gid := None)\<rparr>
                | None \<Rightarrow> w1);
          eventType = (if s = ExecutionStatusFailed then EventTypeGraphFailed
                       else EventTypeGraphCompleted);
          d = (if errorMsg \<noteq> [] then [''error'' \<mapsto> VAny (AStr errorMsg)] else Map.empty);
          w3 = snd (publishGraphEvent w2 gid eventType d);
          w4 = w3\<lparr>metrics := metrics w3 @ [RecordGraphCompleted s (clock w3 - SubmittedAt st1)]\<rparr>
      in (st1, w4))"

text \<open>The work event that \<^verbatim>\<open>publishNodeWork\<close> builds.\<close>

definition work_event :: "nat \<Rightarrow> nat \<Rightarrow> nat \<Rightarrow> string \<Rightarrow> node_type \<Rightarrow> GraphState \<Rightarrow> Event" where
  "work_event i now gid nodeID t st =
     \<lparr>EventID = i, Type = EventTypeNodeWork, Timestamp = now, ExecutionID = gid,
      Data = [''node_id'' \<mapsto> VAny (AStr nodeID),
              ''node_type'' \<mapsto> VNodeType t,
              ''graph_id'' \<mapsto> VExecID gid,
              ''state'' \<mapsto> VInputs (Inputs st),
              ''node_state'' \<mapsto> VNodeStates (NodeStates st)]\<rparr>"

text \<open>
  The part of \<^verbatim>\<open>publishNodeWork\<close> after the \<^verbatim>\<open>switch\<close>, for an executor or a router:
  publish the work event on the topic, then the node-started event, whose result is
  dropped.
\<close>

definition publishWork ::
  "world \<Rightarrow> string \<Rightarrow> nat \<Rightarrow> string \<Rightarrow> node_type \<Rightarrow> GraphState \<Rightarrow> error option \<times> world" where
  "publishWork w topic gid nodeID t st =
     (case uuid_New w of
        (i, w1) \<Rightarrow>
          (case Publish w1 topic (work_event i (clock w1) gid nodeID t st) of
             (Some e, w2) \<Rightarrow> (Some (PublishWorkFailed e), w2)
           | (None, w2) \<Rightarrow>
               (None, snd (publishGraphEvent w2 gid EventTypeNodeStarted
                             [''node_id'' \<mapsto> VAny (AStr nodeID)]))))"

text \<open>
  The first step of \<^verbatim>\<open>publishNodeWork\<close> on a node that has a state: the state becomes
  running, started now.
\<close>

definition setRunning :: "GraphState \<Rightarrow> string \<Rightarrow> NodeState \<Rightarrow> nat \<Rightarrow> GraphState" where
  "setRunning st nodeID nodeState now =
     st\<lparr>NodeStates := (NodeStates st)(nodeID \<mapsto>
          nodeState\<lparr>NodeStatus := ExecutionStatusRunning, NodeStartedAt := Some now\<rparr>)\<rparr>"

text \<open>
  \<^verbatim>\<open>publishNodeWork\<close> calls itself on the successor of a start node, and a cycle of start
  nodes never ends: the function is partial, \<open>None\<close> when it does not return. A nil
  \<^verbatim>\<open>nodeState\<close> makes the Go code panic on the assignment to its field; that is the
  error \<open>NilNodeStatePanic\<close>. The result is the returned error, the record as the
  caller's pointer sees it afterwards, and the world.
\<close>

partial_function (option) publishNodeWork ::
  "world \<Rightarrow> nat \<Rightarrow> string \<Rightarrow> GraphState \<Rightarrow> (error option \<times> GraphState \<times> world) option" where
  "publishNodeWork w gid nodeID st =
     (case GetNode (Graph st) nodeID of
        NilNode \<Rightarrow> Some (Some (NodeNotFound nodeID), st, w)
      | Node t v \<Rightarrow>
          (case NodeStates st nodeID of
             None \<Rightarrow> Some (Some (NilNodeStatePanic nodeID), st, w)
           | Some nodeState \<Rightarrow>
               (let st1 = setRunning st nodeID nodeState (clock w);
                    w1 = snd (SaveState w st1)
                in (case t of
                      NodeTypeExecutor \<Rightarrow>
                        (case publishWork w1 TopicExecutorWork gid nodeID t st1 of
                           (err, w2) \<Rightarrow> Some (err, st1, w2))
                    | NodeTypeRouter \<Rightarrow>
                        (case publishWork w1 TopicRouterWork gid nodeID t st1 of
                           (err, w2) \<Rightarrow> Some (err, st1, w2))
                    | NodeTypeEnd \<Rightarrow>
                        (case completeGraph w1 gid st1 ExecutionStatusCompleted [] of
                           (st2, w2) \<Rightarrow> Some (None, st2, w2))
                    | NodeTypeStart \<Rightarrow>
                        (if findNextNode (Graph st1) nodeID \<noteq> []
                         then publishNodeWork w1 gid (findNextNode (Graph st1) nodeID) st1
                         else Some (None, st1, w1))))))"

declare publishNodeWork.simps [code]

text \<open>
  What a caller of \<^verbatim>\<open>publishNodeWork\<close> cannot handle: the panic goes up through it,
  every other error is logged and dropped.
\<close>

definition panic_of :: "error option \<Rightarrow> error option" where
  "panic_of err = (case err of Some (NilNodeStatePanic n) \<Rightarrow> Some (NilNodeStatePanic n) | _ \<Rightarrow> None)"

text \<open>The loop of \<^verbatim>\<open>SubmitGraph\<close> that gives every node of the graph a pending state.\<close>

fun initNodeStates :: "(string \<times> node) list \<Rightarrow> (string \<rightharpoonup> NodeState) \<Rightarrow> (string \<rightharpoonup> NodeState)" where
  "initNodeStates [] m = m"
| "initNodeStates ((nodeID, n) # rest) m =
     initNodeStates rest
       (m(nodeID \<mapsto> \<lparr>NodeID = nodeID, NodeStatus = ExecutionStatusPending,
                       NodeStartedAt = None, NodeCompletedAt = None,
                       Output = ANil, NodeError = []\<rparr>))"

text \<open>The record \<^verbatim>\<open>SubmitGraph\<close> builds before it saves it.\<close>

definition initialState :: "nat \<Rightarrow> graph \<Rightarrow> (string \<rightharpoonup> any) \<Rightarrow> nat \<Rightarrow> GraphState" where
  "initialState gid g inputs now =
     \<lparr>GraphID = gid, Graph = g, Status = ExecutionStatusRunning, Inputs = inputs,
      NodeStates = initNodeStates (Nodes g) Map.empty, SubmittedAt = now,
      StartedAt = None, CompletedAt = None, Error = []\<rparr>"

text \<open>
  The step of \<^verbatim>\<open>SubmitGraph\<close> between the submitted event and the entry dispatch: the
  deadline context, the tracker entry, the metric; the monitor goroutine waits on the
  context.
\<close>

definition trackExecution :: "world \<Rightarrow> nat \<Rightarrow> world" where
  "trackExecution w gid =
     w\<lparr>contexts := (contexts w)(gid \<mapsto> CtxActive),
       executions := (executions w)(gid \<mapsto>
          \<lparr>graphID = gid, status = ExecutionStatusRunning, startedAt = clock w\<rparr>),
       metrics := metrics w @ [RecordGraphSubmitted ExecutionStatusSubmitted]\<rparr>"

text \<open>
  \<^verbatim>\<open>SubmitGraph\<close> returns the error or the execution id; \<open>None\<close> when the entry dispatch
  does not return. A panic of the dispatch is not caught: it is passed on.
\<close>

definition SubmitGraph ::
  "world \<Rightarrow> graph \<Rightarrow> (string \<rightharpoonup> any) \<Rightarrow> ((error + nat) \<times> world) option" where
  "SubmitGraph w g inputs =
     (case Validate (Some g) of
        Some err \<Rightarrow>
          Some (Inl (ValidationFailed err),
                w\<lparr>metrics := metrics w @ [RecordGraphSubmitted ExecutionStatusFailed]\<rparr>)
      | None \<Rightarrow>
          (case uuid_New w of
             (gid, w1) \<Rightarrow>
               (case SaveState w1 (initialState gid g inputs (clock w1)) of
                  (Some err, w2) \<Rightarrow> Some (Inl (SaveStateFailed err), w2)
                | (None, w2) \<Rightarrow>
                    (case publishGraphEvent w2 gid EventTypeGraphSubmitted
                            [''original_graph_id'' \<mapsto> VAny (AStr (ID g))] of
                       (Some err, w3) \<Rightarrow> Some (Inl err, w3)
                     | (None, w3) \<Rightarrow>
                         (case publishNodeWork (trackExecution w3 gid) gid (EntryNode g)
                                 (initialState gid g inputs (clock w1)) of
                            None \<Rightarrow> None
                          | Some (err, st', w4) \<Rightarrow>
                              (case panic_of err of
                                 Some p \<Rightarrow> Some (Inl p, w4)
                               | None \<Rightarrow> Some (Inr gid, w4)))))))"

text \<open>The type assertion \<^verbatim>\<open>v.(string)\<close> on a value of an event's data.\<close>

definition as_string :: "data_value option \<Rightarrow> string \<times> bool" where
  "as_string v = (case v of Some (VAny (AStr s)) \<Rightarrow> (s, True) | _ \<Rightarrow> ([], False))"

text \<open>The value under \<^verbatim>\<open>output\<close>, nil when the key is absent.\<close>

definition as_any :: "data_value option \<Rightarrow> any" where
  "as_any v = (case v of Some (VAny a) \<Rightarrow> a | _ \<Rightarrow> ANil)"

text \<open>
  The update of the completed node's state in \<^verbatim>\<open>handleNodeCompleted\<close>: completed now,
  and failed with the error, or completed with the output.
\<close>

definition setCompleted ::
  "GraphState \<Rightarrow> string \<Rightarrow> NodeState \<Rightarrow> nat \<Rightarrow> bool \<Rightarrow> string \<Rightarrow> any \<Rightarrow> GraphState" where
  "setCompleted st nodeID nodeState now hasError errorMsg output =
     st\<lparr>NodeStates := (NodeStates st)(nodeID \<mapsto>
          (if hasError
           then nodeState\<lparr>NodeStatus := ExecutionStatusFailed, NodeCompletedAt := Some now,
                          NodeError := errorMsg\<rparr>
           else nodeState\<lparr>NodeStatus := ExecutionStatusCompleted, NodeCompletedAt := Some now,
                          Output := output\<rparr>))\<rparr>"

text \<open>
  \<^verbatim>\<open>handleNodeCompleted\<close> always returns nil; what is returned here is the panic of a
  dispatch, if there is one, and the world.
\<close>

definition handleNodeCompleted :: "world \<Rightarrow> Event \<Rightarrow> (error option \<times> world) option" where
  "handleNodeCompleted w event =
     (let gid = ExecutionID event;
          nodeID = fst (as_string (Data event ''node_id''));
          output = as_any (Data event ''output'');
          errorMsg = fst (as_string (Data event ''error''));
          hasError = snd (as_string (Data event ''error''));
          nextNodeID = fst (as_string (Data event ''next_node''))
      in case GetState w gid of
           Inl err \<Rightarrow> Some (None, w)
         | Inr st \<Rightarrow>
             (case NodeStates st nodeID of
                None \<Rightarrow> Some (None, w)
              | Some nodeState \<Rightarrow>
                  (let st1 = setCompleted st nodeID nodeState (clock w) hasError errorMsg output;
                       w1 = snd (SaveState w st1)
                   in if hasError
                      then Some (None, snd (completeGraph w1 gid st1 ExecutionStatusFailed errorMsg))
                      else (let nextNode = (if nextNodeID \<noteq> [] then nextNodeID
                                            else findNextNode (Graph st1) nodeID)
                            in if nextNode = []
                               then Some (None,
                                      snd (completeGraph w1 gid st1 ExecutionStatusCompleted []))
                               else (case publishNodeWork w1 gid nextNode st1 of
                                       None \<Rightarrow> None
                                     | Some (err, st', w2) \<Rightarrow> Some (panic_of err, w2))))))"

definition GetStatus :: "world \<Rightarrow> nat \<Rightarrow> error + GraphState" where
  "GetStatus w gid =
     (case GetState w gid of Inl err \<Rightarrow> Inl (GetStateFailed err) | Inr st \<Rightarrow> Inr st)"

definition terminal :: "ExecutionStatus \<Rightarrow> bool" where
  "terminal s \<longleftrightarrow>
     s = ExecutionStatusCompleted \<or> s = ExecutionStatusFailed \<or> s = ExecutionStatusCancelled"

definition CancelExecution :: "world \<Rightarrow> nat \<Rightarrow> error option \<times> world" where
  "CancelExecution w gid =
     (case executions w gid of
        None \<Rightarrow> (Some (ExecutionNotFound gid), w)
      | Some execCtx \<Rightarrow>
          if status execCtx = ExecutionStatusCompleted
             \<or> status execCtx = ExecutionStatusFailed
             \<or> status execCtx = ExecutionStatusCancelled
          then (Some (AlreadyTerminal (status execCtx)), w)
          else (let w1 = cancelFunc w gid;
                    w2 = w1\<lparr>executions := (executions w1)(gid \<mapsto>
                              execCtx\<lparr>status := ExecutionStatusCancelled\<rparr>)\<rparr>
                in case GetState w2 gid of
                     Inl err \<Rightarrow> (Some (GetStateFailed err), w2)
                   | Inr st \<Rightarrow>
                       (case SaveState w2 (st\<lparr>Status := ExecutionStatusCancelled,
                                               CompletedAt := Some (clock w2)\<rparr>) of
                          (Some err, w3) \<Rightarrow> (Some (SaveStateFailed err), w3)
                        | (None, w3) \<Rightarrow>
                            (let w4 = snd (publishGraphEvent w3 gid EventTypeGraphCancelled Map.empty)
                             in (None, w4\<lparr>executions := (executions w4)(gid := None)\<rparr>)))))"

definition handleTimeout :: "world \<Rightarrow> nat \<Rightarrow> world" where
  "handleTimeout w gid =
     (case GetState w gid of
        Inl err \<Rightarrow> w
      | Inr st \<Rightarrow> snd (completeGraph w gid st ExecutionStatusFailed ''execution timeout''))"

text \<open>
  The timeout of an execution's context elapses: a context that is still active becomes
  deadline-exceeded. That is the timer of \<^verbatim>\<open>context.WithTimeout\<close>, not a step of the
  manager; nothing revokes it, \<open>cancelFunc\<close> on an exceeded context changes nothing.
\<close>

definition expireDeadline :: "world \<Rightarrow> nat \<Rightarrow> world" where
  "expireDeadline w gid =
     (case contexts w gid of
        Some CtxActive \<Rightarrow> w\<lparr>contexts := (contexts w)(gid \<mapsto> CtxDeadlineExceeded)\<rparr>
      | _ \<Rightarrow> w)"

text \<open>
  \<^verbatim>\<open>monitorExecution\<close>, the goroutine of an execution, when it gets to run after its
  context is done, which may be any time after the deadline has elapsed: if the
  context's error is the exceeded deadline it handles the timeout, once; on a cancelled
  context it returns without doing anything; on an active one it is still waiting.
\<close>

definition monitorExecution :: "world \<Rightarrow> nat \<Rightarrow> world" where
  "monitorExecution w gid =
     (case contexts w gid of
        Some CtxDeadlineExceeded \<Rightarrow>
          handleTimeout (w\<lparr>contexts := (contexts w)(gid \<mapsto> CtxHandled)\<rparr>) gid
      | _ \<Rightarrow> w)"

text \<open>The dispatch calls itself only from a start node that has a state and a successor.\<close>

definition recurses :: "GraphState \<Rightarrow> string \<Rightarrow> bool" where
  "recurses st n \<longleftrightarrow>
     (\<exists>v. GetNode (Graph st) n = Node NodeTypeStart v) \<and> NodeStates st n \<noteq> None
     \<and> findNextNode (Graph st) n \<noteq> []"

section \<open>Names for the stages of a submission\<close>

text \<open>The submitted event of a valid graph, as \<^verbatim>\<open>SubmitGraph\<close> publishes it.\<close>

definition submitted_event :: "world \<Rightarrow> graph \<Rightarrow> Event" where
  "submitted_event w g =
     graph_event (Suc (next_uuid w)) (clock w) (next_uuid w) EventTypeGraphSubmitted
       [''original_graph_id'' \<mapsto> VAny (AStr (ID g))]"

text \<open>The world once the id is minted and the initial record is saved.\<close>

definition persisted :: "world \<Rightarrow> graph \<Rightarrow> (string \<rightharpoonup> any) \<Rightarrow> world" where
  "persisted w g inputs =
     snd (SaveState (snd (uuid_New w)) (initialState (next_uuid w) g inputs (clock w)))"

text \<open>
  The world in which the entry node is dispatched: the submitted event is out, the
  execution is tracked and its deadline context is active.
\<close>

definition tracked :: "world \<Rightarrow> graph \<Rightarrow> (string \<rightharpoonup> any) \<Rightarrow> world" where
  "tracked w g inputs =
     trackExecution
       (snd (publishGraphEvent (persisted w g inputs) (next_uuid w) EventTypeGraphSubmitted
               [''original_graph_id'' \<mapsto> VAny (AStr (ID g))]))
       (next_uuid w)"

text \<open>
  The dispatch from node \<open>n\<close> returns after at most \<open>k\<close> calls of itself: following the
  first edges from \<open>n\<close>, within \<open>k\<close> steps there is a node that is not a start node, or
  is not in the graph, or has no successor.
\<close>

fun dispatchEnds :: "nat \<Rightarrow> graph \<Rightarrow> string \<Rightarrow> bool" where
  "dispatchEnds 0 g n =
     (case GetNode g n of Node NodeTypeStart v \<Rightarrow> findNextNode g n = [] | _ \<Rightarrow> True)"
| "dispatchEnds (Suc k) g n =
     (case GetNode g n of
        Node NodeTypeStart v \<Rightarrow> findNextNode g n = [] \<or> dispatchEnds k g (findNextNode g n)
      | _ \<Rightarrow> True)"

text \<open>
  The nodes a dispatch from \<open>n\<close> sets running, in order, when it makes at most \<open>k\<close> calls
  of itself; and whether the last of them is an end node, at which the record is
  completed.
\<close>

fun dispatched :: "nat \<Rightarrow> graph \<Rightarrow> string \<Rightarrow> string list" where
  "dispatched 0 g n = (case GetNode g n of NilNode \<Rightarrow> [] | Node t v \<Rightarrow> [n])"
| "dispatched (Suc k) g n =
     (case GetNode g n of
        NilNode \<Rightarrow> []
      | Node t v \<Rightarrow>
          n # (if t = NodeTypeStart \<and> findNextNode g n \<noteq> []
               then dispatched k g (findNextNode g n) else []))"

definition endsAtEnd :: "nat \<Rightarrow> graph \<Rightarrow> string \<Rightarrow> bool" where
  "endsAtEnd k g n \<longleftrightarrow>
     (case dispatched k g n of
        [] \<Rightarrow> False
      | x # xs \<Rightarrow> (case GetNode g (last (x # xs)) of Node NodeTypeEnd v \<Rightarrow> True | _ \<Rightarrow> False))"

text \<open>A node state set running at a time, as \<open>setRunning\<close> does it.\<close>

definition running :: "nat \<Rightarrow> NodeState \<Rightarrow> NodeState" where
  "running now ns = ns\<lparr>NodeStatus := ExecutionStatusRunning, NodeStartedAt := Some now\<rparr>"

text \<open>The state every node has in the initial record.\<close>

definition pending :: "string \<Rightarrow> NodeState" where
  "pending n = \<lparr>NodeID = n, NodeStatus = ExecutionStatusPending, NodeStartedAt = None,
                 NodeCompletedAt = None, Output = ANil, NodeError = []\<rparr>"

section \<open>The specification's words\<close>

text \<open>
  The admission invariants other than the one on the entry node: an id and a version,
  at least one node, node ids unique and not empty, every node passing its own check,
  both ends of every edge among the nodes.
\<close>

definition otherwise_valid :: "graph \<Rightarrow> bool" where
  "otherwise_valid g \<longleftrightarrow>
     ID g \<noteq> [] \<and> Version g \<noteq> [] \<and> Nodes g \<noteq> [] \<and> distinct (map fst (Nodes g))
     \<and> list_all (\<lambda>(nodeID, n). validateNode nodeID n = None) (Nodes g)
     \<and> list_all (\<lambda>e. From e \<in> fst ` set (Nodes g) \<and> To e \<in> fst ` set (Nodes g)) (Edges g)"

text \<open>
  Successor selection as the specification words it: the next node of the completion
  envelope if it has one, else the \<^verbatim>\<open>to\<close> of the first edge, in \<^verbatim>\<open>edges\<close> order, whose
  \<^verbatim>\<open>from\<close> is the completed node; none if there is no such edge.
\<close>

definition spec_successor :: "graph \<Rightarrow> string \<Rightarrow> string \<Rightarrow> string option" where
  "spec_successor g completed next_node =
     (if next_node \<noteq> [] then Some next_node
      else map_option To (List.find (\<lambda>e. From e = completed) (Edges g)))"

section \<open>Reachable worlds and what holds in them\<close>

text \<open>
  The worlds a manager can be in: it starts with nothing stored, tracked or published,
  and then graphs are submitted, completion events are handled, executions are
  cancelled, deadlines elapse, monitors run after them, and outside of it time passes
  and the bus changes its mind about what it accepts.
\<close>

inductive reachable :: "world \<Rightarrow> bool" where
  start: "reachable \<lparr>states = Map.empty, executions = Map.empty, contexts = Map.empty,
                      published = [], bus_rejects = b, metrics = [], next_uuid = 0, clock = t\<rparr>"
| submit: "reachable w \<Longrightarrow> SubmitGraph w g inputs = Some (r, w') \<Longrightarrow> reachable w'"
| completed: "reachable w \<Longrightarrow> handleNodeCompleted w ev = Some (r, w') \<Longrightarrow> reachable w'"
| cancel: "reachable w \<Longrightarrow> reachable (snd (CancelExecution w gid))"
| expire: "reachable w \<Longrightarrow> reachable (expireDeadline w gid)"
| timeout: "reachable w \<Longrightarrow> reachable (monitorExecution w gid)"
| environment: "reachable w \<Longrightarrow> reachable (w\<lparr>bus_rejects := b, clock := t\<rparr>)"

text \<open>A world and a later one: what the same operations make of a world.\<close>

inductive evolves :: "world \<Rightarrow> world \<Rightarrow> bool" where
  same: "evolves w w"
| submit: "evolves w w1 \<Longrightarrow> SubmitGraph w1 g inputs = Some (r, w2) \<Longrightarrow> evolves w w2"
| completed: "evolves w w1 \<Longrightarrow> handleNodeCompleted w1 ev = Some (r, w2) \<Longrightarrow> evolves w w2"
| cancel: "evolves w w1 \<Longrightarrow> evolves w (snd (CancelExecution w1 gid))"
| expire: "evolves w w1 \<Longrightarrow> evolves w (expireDeadline w1 gid)"
| timeout: "evolves w w1 \<Longrightarrow> evolves w (monitorExecution w1 gid)"
| environment: "evolves w w1 \<Longrightarrow> evolves w (w1\<lparr>bus_rejects := b, clock := t\<rparr>)"

text \<open>
  A stored record is in order under its key: it carries the key as its id, the id has
  been minted, its graph passed the validator, every node of the graph has a state, and
  it is either terminal or running with no error and no completion time.
\<close>

definition record_ok :: "world \<Rightarrow> nat \<Rightarrow> GraphState \<Rightarrow> bool" where
  "record_ok w k st \<longleftrightarrow>
     GraphID st = k \<and> k < next_uuid w \<and> Validate (Some (Graph st)) = None
     \<and> (\<forall>n. GetNode (Graph st) n \<noteq> NilNode \<longrightarrow> NodeStates st n \<noteq> None)
     \<and> (terminal (Status st)
        \<or> (Status st = ExecutionStatusRunning \<and> Error st = [] \<and> CompletedAt st = None))"

text \<open>
  The invariant of the reachable worlds: every stored record is in order; a tracked
  execution is running, in the tracker and in the store; an active deadline context
  belongs to a tracked execution.
\<close>

definition world_inv :: "world \<Rightarrow> bool" where
  "world_inv w \<longleftrightarrow>
     (\<forall>k st. states w k = Some st \<longrightarrow> record_ok w k st)
     \<and> (\<forall>k ec. executions w k = Some ec \<longrightarrow>
           status ec = ExecutionStatusRunning
           \<and> (\<exists>st. states w k = Some st \<and> Status st = ExecutionStatusRunning))
     \<and> (\<forall>k. contexts w k = Some CtxActive \<longrightarrow> executions w k \<noteq> None)"

section \<open>Example worlds and graphs\<close>

text \<open>A fresh manager: empty store, nothing tracked, a bus that accepts every event.\<close>

definition w_init :: world where
  "w_init = \<lparr>states = Map.empty, executions = Map.empty, contexts = Map.empty, published = [],
             bus_rejects = (\<lambda>_ _. False), metrics = [], next_uuid = 0, clock = 7\<rparr>"

text \<open>Start \<open>A\<close>, executor \<open>B\<close>, end \<open>C\<close>, in a line; entry \<open>A\<close>.\<close>

definition g_linear :: graph where
  "g_linear = \<lparr>ID = ''g'', Version = ''1'',
      Nodes = [(''A'', Node NodeTypeStart None), (''B'', Node NodeTypeExecutor None),
               (''C'', Node NodeTypeEnd None)],
      Edges = [\<lparr>From = ''A'', To = ''B'', Label = []\<rparr>, \<lparr>From = ''B'', To = ''C'', Label = []\<rparr>],
      EntryNode = ''A''\<rparr>"

text \<open>One executor \<open>B\<close>, no edge; entry \<open>B\<close>.\<close>

definition g_single :: graph where
  "g_single = \<lparr>ID = ''g'', Version = ''1'', Nodes = [(''B'', Node NodeTypeExecutor None)],
      Edges = [], EntryNode = ''B''\<rparr>"

text \<open>One end node \<open>E\<close>; entry \<open>E\<close>.\<close>

definition g_end :: graph where
  "g_end = \<lparr>ID = ''g'', Version = ''1'', Nodes = [(''E'', Node NodeTypeEnd None)],
      Edges = [], EntryNode = ''E''\<rparr>"

text \<open>The line \<open>A\<close>, \<open>B\<close>, \<open>C\<close> with no entry node.\<close>

definition g_noentry :: graph where
  "g_noentry = g_linear\<lparr>EntryNode := []\<rparr>"

text \<open>
  Start \<open>A\<close>, router \<open>R\<close>, executors \<open>X\<close> and \<open>Y\<close>, end \<open>E\<close>; the first edge from \<open>R\<close> goes
  to \<open>X\<close>, none goes to \<open>Y\<close>.
\<close>

definition g_router :: graph where
  "g_router = \<lparr>ID = ''g'', Version = ''1'',
      Nodes = [(''A'', Node NodeTypeStart None), (''R'', Node NodeTypeRouter None),
               (''X'', Node NodeTypeExecutor None), (''Y'', Node NodeTypeExecutor None),
               (''E'', Node NodeTypeEnd None)],
      Edges = [\<lparr>From = ''A'', To = ''R'', Label = []\<rparr>, \<lparr>From = ''R'', To = ''X'', Label = []\<rparr>,
               \<lparr>From = ''X'', To = ''E'', Label = []\<rparr>, \<lparr>From = ''Y'', To = ''E'', Label = []\<rparr>],
      EntryNode = ''A''\<rparr>"

text \<open>Two start nodes that point at each other; entry \<open>A\<close>.\<close>

definition g_cycle :: graph where
  "g_cycle = \<lparr>ID = ''g'', Version = ''1'',
      Nodes = [(''A'', Node NodeTypeStart None), (''B'', Node NodeTypeStart None)],
      Edges = [\<lparr>From = ''A'', To = ''B'', Label = []\<rparr>, \<lparr>From = ''B'', To = ''A'', Label = []\<rparr>],
      EntryNode = ''A''\<rparr>"

text \<open>A fresh manager whose bus rejects the submitted event, and one whose bus rejects work.\<close>

definition w_rejecting :: world where
  "w_rejecting = w_init\<lparr>bus_rejects := (\<lambda>topic ev. Type ev = EventTypeGraphSubmitted)\<rparr>"

definition w_no_work :: world where
  "w_no_work = w_init\<lparr>bus_rejects := (\<lambda>topic ev. Type ev = EventTypeNodeWork)\<rparr>"

text \<open>Completion envelopes for a node: with an output, with an error, with a next node.\<close>

definition completion :: "nat \<Rightarrow> string \<Rightarrow> any \<Rightarrow> Event" where
  "completion gid n out =
     \<lparr>EventID = 0, Type = EventTypeNodeCompleted, Timestamp = 0, ExecutionID = gid,
      Data = [''node_id'' \<mapsto> VAny (AStr n), ''output'' \<mapsto> VAny out]\<rparr>"

definition completion_error :: "nat \<Rightarrow> string \<Rightarrow> string \<Rightarrow> Event" where
  "completion_error gid n msg =
     \<lparr>EventID = 0, Type = EventTypeNodeCompleted, Timestamp = 0, ExecutionID = gid,
      Data = [''node_id'' \<mapsto> VAny (AStr n), ''error'' \<mapsto> VAny (AStr msg)]\<rparr>"

definition completion_next :: "nat \<Rightarrow> string \<Rightarrow> string \<Rightarrow> Event" where
  "completion_next gid n nx =
     \<lparr>EventID = 0, Type = EventTypeNodeCompleted, Timestamp = 0, ExecutionID = gid,
      Data = [''node_id'' \<mapsto> VAny (AStr n), ''next_node'' \<mapsto> VAny (AStr nx)]\<rparr>"

text \<open>The world after an operation that returned, the world as it was if it did not.\<close>

definition after_submit :: "world \<Rightarrow> graph \<Rightarrow> world" where
  "after_submit w g = (case SubmitGraph w g Map.empty of Some (r, w') \<Rightarrow> w' | None \<Rightarrow> w)"

definition after_completed :: "world \<Rightarrow> Event \<Rightarrow> world" where
  "after_completed w ev = (case handleNodeCompleted w ev of Some (r, w') \<Rightarrow> w' | None \<Rightarrow> w)"

definition after_dispatch :: "world \<Rightarrow> nat \<Rightarrow> string \<Rightarrow> GraphState \<Rightarrow> world" where
  "after_dispatch w gid n st =
     (case publishNodeWork w gid n st of Some (err, st', w') \<Rightarrow> w' | None \<Rightarrow> w)"

text \<open>The graph \<open>g_single\<close> submitted to a fresh manager and cancelled at once.\<close>

definition w_cancelled :: world where
  "w_cancelled = snd (CancelExecution (after_submit w_init g_single) 0)"

text \<open>
  The graph \<open>g_single\<close> submitted to a fresh manager; its deadline elapses, and before the
  monitor runs the completion of \<open>B\<close> arrives.
\<close>

definition w_expired :: world where
  "w_expired =
     after_completed (expireDeadline (after_submit w_init g_single) 0)
       (completion 0 ''B'' (AStr ''hi''))"

text \<open>A completion envelope whose error is a number, not a string.\<close>

definition completion_odd_error :: "nat \<Rightarrow> string \<Rightarrow> Event" where
  "completion_odd_error gid n =
     \<lparr>EventID = 0, Type = EventTypeNodeCompleted, Timestamp = 0, ExecutionID = gid,
      Data = [''node_id'' \<mapsto> VAny (AStr n), ''error'' \<mapsto> VAny (ANum 42)]\<rparr>"

text \<open>What the store says about an execution and about one of its nodes.\<close>

definition record_status :: "world \<Rightarrow> nat \<Rightarrow> ExecutionStatus option" where
  "record_status w gid = map_option Status (states w gid)"

definition node_status :: "world \<Rightarrow> nat \<Rightarrow> string \<Rightarrow> ExecutionStatus option" where
  "node_status w gid n =
     (case states w gid of
        None \<Rightarrow> None
      | Some st \<Rightarrow> map_option NodeStatus (NodeStates st n))"

text \<open>The topics of the events published since an earlier world.\<close>

definition new_topics :: "world \<Rightarrow> world \<Rightarrow> string list" where
  "new_topics w w' = map fst (drop (length (published w)) (published w'))"

text \<open>An edge to a node \<open>Z\<close> that the graph does not have.\<close>

definition g_dangling :: graph where
  "g_dangling = \<lparr>ID = ''g'', Version = ''1'', Nodes = [(''B'', Node NodeTypeExecutor None)],
      Edges = [\<lparr>From = ''B'', To = ''Z'', Label = []\<rparr>], EntryNode = ''B''\<rparr>"

section \<open>What each step does to each part of the world\<close>

lemma SaveState_simps [simp]:
  "fst (SaveState w st) = None"
  "states (snd (SaveState w st)) = (states w)(GraphID st \<mapsto> st)"
  "executions (snd (SaveState w st)) = executions w"
  "contexts (snd (SaveState w st)) = contexts w"
  "published (snd (SaveState w st)) = published w"
  "bus_rejects (snd (SaveState w st)) = bus_rejects w"
  "metrics (snd (SaveState w st)) = metrics w"
  "next_uuid (snd (SaveState w st)) = next_uuid w"
  "clock (snd (SaveState w st)) = clock w"
  by (simp_all add: SaveState_def)

lemma publishGraphEvent_simps [simp]:
  "fst (publishGraphEvent w gid ty d) =
     (if bus_rejects w TopicGraphEvents (graph_event (next_uuid w) (clock w) gid ty d)
      then Some PublishRejected else None)"
  "states (snd (publishGraphEvent w gid ty d)) = states w"
  "executions (snd (publishGraphEvent w gid ty d)) = executions w"
  "contexts (snd (publishGraphEvent w gid ty d)) = contexts w"
  "published (snd (publishGraphEvent w gid ty d)) =
     published w @
     (if bus_rejects w TopicGraphEvents (graph_event (next_uuid w) (clock w) gid ty d)
      then [] else [(TopicGraphEvents, graph_event (next_uuid w) (clock w) gid ty d)])"
  "bus_rejects (snd (publishGraphEvent w gid ty d)) = bus_rejects w"
  "metrics (snd (publishGraphEvent w gid ty d)) = metrics w"
  "next_uuid (snd (publishGraphEvent w gid ty d)) = Suc (next_uuid w)"
  "clock (snd (publishGraphEvent w gid ty d)) = clock w"
  by (simp_all add: publishGraphEvent_def uuid_New_def Publish_def)

lemma cancelFunc_simps [simp]:
  "states (cancelFunc w gid) = states w"
  "executions (cancelFunc w gid) = executions w"
  "contexts (cancelFunc w gid) =
     (if contexts w gid = Some CtxActive then (contexts w)(gid \<mapsto> CtxCanceled) else contexts w)"
  "published (cancelFunc w gid) = published w"
  "bus_rejects (cancelFunc w gid) = bus_rejects w"
  "metrics (cancelFunc w gid) = metrics w"
  "next_uuid (cancelFunc w gid) = next_uuid w"
  "clock (cancelFunc w gid) = clock w"
  by (simp_all add: cancelFunc_def split: option.splits ctx_state.splits)

lemma expireDeadline_simps [simp]:
  "states (expireDeadline w gid) = states w"
  "executions (expireDeadline w gid) = executions w"
  "contexts (expireDeadline w gid) =
     (if contexts w gid = Some CtxActive then (contexts w)(gid \<mapsto> CtxDeadlineExceeded)
      else contexts w)"
  "published (expireDeadline w gid) = published w"
  "bus_rejects (expireDeadline w gid) = bus_rejects w"
  "metrics (expireDeadline w gid) = metrics w"
  "next_uuid (expireDeadline w gid) = next_uuid w"
  "clock (expireDeadline w gid) = clock w"
  by (simp_all add: expireDeadline_def split: option.splits ctx_state.splits)

text \<open>The record that \<^verbatim>\<open>completeGraph\<close> leaves.\<close>

lemma completeGraph_fst:
  "fst (completeGraph w gid st s msg) =
     st\<lparr>Status := s, CompletedAt := Some (clock w),
        Error := (if msg \<noteq> [] then msg else Error st)\<rparr>"
  by (simp add: completeGraph_def Let_def)

lemma completeGraph_simps [simp]:
  "states (snd (completeGraph w gid st s msg)) =
     (states w)(GraphID st \<mapsto> fst (completeGraph w gid st s msg))"
  "executions (snd (completeGraph w gid st s msg)) = (executions w)(gid := None)"
  "contexts (snd (completeGraph w gid st s msg)) =
     (if executions w gid \<noteq> None \<and> contexts w gid = Some CtxActive
      then (contexts w)(gid \<mapsto> CtxCanceled) else contexts w)"
  "bus_rejects (snd (completeGraph w gid st s msg)) = bus_rejects w"
  "next_uuid (snd (completeGraph w gid st s msg)) = Suc (next_uuid w)"
  "clock (snd (completeGraph w gid st s msg)) = clock w"
  by (auto simp: completeGraph_def Let_def split: option.splits)

lemma completeGraph_published:
  "published (snd (completeGraph w gid st s msg)) =
     published w @
     (let ev = graph_event (next_uuid w) (clock w) gid
                 (if s = ExecutionStatusFailed then EventTypeGraphFailed else EventTypeGraphCompleted)
                 (if msg \<noteq> [] then [''error'' \<mapsto> VAny (AStr msg)] else Map.empty)
      in if bus_rejects w TopicGraphEvents ev then [] else [(TopicGraphEvents, ev)])"
  by (auto simp: completeGraph_def Let_def split: option.splits)

lemma publishWork_simps [simp]:
  "fst (publishWork w topic gid n t st) =
     (if bus_rejects w topic (work_event (next_uuid w) (clock w) gid n t st)
      then Some (PublishWorkFailed PublishRejected) else None)"
  "states (snd (publishWork w topic gid n t st)) = states w"
  "executions (snd (publishWork w topic gid n t st)) = executions w"
  "contexts (snd (publishWork w topic gid n t st)) = contexts w"
  "bus_rejects (snd (publishWork w topic gid n t st)) = bus_rejects w"
  "clock (snd (publishWork w topic gid n t st)) = clock w"
  "next_uuid (snd (publishWork w topic gid n t st)) =
     (if bus_rejects w topic (work_event (next_uuid w) (clock w) gid n t st)
      then Suc (next_uuid w) else Suc (Suc (next_uuid w)))"
  by (auto simp: publishWork_def uuid_New_def Publish_def split: prod.splits)

lemma publishWork_published:
  "published (snd (publishWork w topic gid n t st)) =
     published w @
     (if bus_rejects w topic (work_event (next_uuid w) (clock w) gid n t st) then []
      else (topic, work_event (next_uuid w) (clock w) gid n t st)
           # (let ev = graph_event (Suc (next_uuid w)) (clock w) gid EventTypeNodeStarted
                         [''node_id'' \<mapsto> VAny (AStr n)]
              in if bus_rejects w TopicGraphEvents ev then [] else [(TopicGraphEvents, ev)]))"
  by (auto simp: publishWork_def uuid_New_def Publish_def Let_def split: prod.splits)

lemma setRunning_simps [simp]:
  "GraphID (setRunning st n ns t) = GraphID st"
  "Graph (setRunning st n ns t) = Graph st"
  "Status (setRunning st n ns t) = Status st"
  "Inputs (setRunning st n ns t) = Inputs st"
  "SubmittedAt (setRunning st n ns t) = SubmittedAt st"
  "StartedAt (setRunning st n ns t) = StartedAt st"
  "CompletedAt (setRunning st n ns t) = CompletedAt st"
  "Error (setRunning st n ns t) = Error st"
  "NodeStates (setRunning st n ns t) =
     (NodeStates st)(n \<mapsto> ns\<lparr>NodeStatus := ExecutionStatusRunning, NodeStartedAt := Some t\<rparr>)"
  by (simp_all add: setRunning_def)

section \<open>One step of the dispatch, and induction over it\<close>

lemma pnw_nil:
  "GetNode (Graph st) n = NilNode \<Longrightarrow>
   publishNodeWork w gid n st = Some (Some (NodeNotFound n), st, w)"
  by (subst publishNodeWork.simps) simp

lemma pnw_panic:
  "GetNode (Graph st) n = Node t v \<Longrightarrow> NodeStates st n = None \<Longrightarrow>
   publishNodeWork w gid n st = Some (Some (NilNodeStatePanic n), st, w)"
  by (subst publishNodeWork.simps) simp

lemma pnw_executor:
  "GetNode (Graph st) n = Node NodeTypeExecutor v \<Longrightarrow> NodeStates st n = Some ns \<Longrightarrow>
   publishNodeWork w gid n st =
     Some (fst (publishWork (snd (SaveState w (setRunning st n ns (clock w)))) TopicExecutorWork gid n
                  NodeTypeExecutor (setRunning st n ns (clock w))),
           setRunning st n ns (clock w),
           snd (publishWork (snd (SaveState w (setRunning st n ns (clock w)))) TopicExecutorWork gid n
                  NodeTypeExecutor (setRunning st n ns (clock w))))"
  by (subst publishNodeWork.simps) (simp add: Let_def case_prod_beta)

lemma pnw_router:
  "GetNode (Graph st) n = Node NodeTypeRouter v \<Longrightarrow> NodeStates st n = Some ns \<Longrightarrow>
   publishNodeWork w gid n st =
     Some (fst (publishWork (snd (SaveState w (setRunning st n ns (clock w)))) TopicRouterWork gid n
                  NodeTypeRouter (setRunning st n ns (clock w))),
           setRunning st n ns (clock w),
           snd (publishWork (snd (SaveState w (setRunning st n ns (clock w)))) TopicRouterWork gid n
                  NodeTypeRouter (setRunning st n ns (clock w))))"
  by (subst publishNodeWork.simps) (simp add: Let_def case_prod_beta)

lemma pnw_end:
  "GetNode (Graph st) n = Node NodeTypeEnd v \<Longrightarrow> NodeStates st n = Some ns \<Longrightarrow>
   publishNodeWork w gid n st =
     Some (None,
           completeGraph (snd (SaveState w (setRunning st n ns (clock w)))) gid
             (setRunning st n ns (clock w)) ExecutionStatusCompleted [])"
  by (subst publishNodeWork.simps) (simp add: Let_def case_prod_beta)

lemma pnw_start:
  "GetNode (Graph st) n = Node NodeTypeStart v \<Longrightarrow> NodeStates st n = Some ns \<Longrightarrow>
   publishNodeWork w gid n st =
     (if findNextNode (Graph st) n \<noteq> []
      then publishNodeWork (snd (SaveState w (setRunning st n ns (clock w)))) gid
             (findNextNode (Graph st) n) (setRunning st n ns (clock w))
      else Some (None, setRunning st n ns (clock w), snd (SaveState w (setRunning st n ns (clock w)))))"
  by (subst publishNodeWork.simps) (simp add: Let_def)

lemma publishNodeWork_induct [consumes 1, case_names stop step]:
  assumes run: "publishNodeWork w gid n st = Some r"
    and stop: "\<And>w n st r. \<not> recurses st n \<Longrightarrow> publishNodeWork w gid n st = Some r \<Longrightarrow> P w n st r"
    and step: "\<And>w n st v ns r.
        GetNode (Graph st) n = Node NodeTypeStart v \<Longrightarrow> NodeStates st n = Some ns \<Longrightarrow>
        findNextNode (Graph st) n \<noteq> [] \<Longrightarrow>
        P (snd (SaveState w (setRunning st n ns (clock w)))) (findNextNode (Graph st) n)
          (setRunning st n ns (clock w)) r \<Longrightarrow>
        P w n st r"
  shows "P w n st r"
proof -
  have "gid = gid \<longrightarrow> P w n st r"
  proof (rule publishNodeWork.raw_induct [where P = "\<lambda>w g n st r. g = gid \<longrightarrow> P w n st r", OF _ run])
    fix f w g n st r
    assume IH: "\<And>w g n st r. f w g n st = Some r \<Longrightarrow> g = gid \<longrightarrow> P w n st r"
      and body: "(case GetNode (Graph st) n of
        NilNode \<Rightarrow> Some (Some (NodeNotFound n), st, w)
      | Node t v \<Rightarrow>
          (case NodeStates st n of
             None \<Rightarrow> Some (Some (NilNodeStatePanic n), st, w)
           | Some nodeState \<Rightarrow>
               (let st1 = setRunning st n nodeState (clock w);
                    w1 = snd (SaveState w st1)
                in (case t of
                      NodeTypeStart \<Rightarrow>
                        (if findNextNode (Graph st1) n \<noteq> []
                         then f w1 g (findNextNode (Graph st1) n) st1
                         else Some (None, st1, w1))
                    | NodeTypeExecutor \<Rightarrow>
                        (case publishWork w1 TopicExecutorWork g n t st1 of
                           (err, w2) \<Rightarrow> Some (err, st1, w2))
                    | NodeTypeRouter \<Rightarrow>
                        (case publishWork w1 TopicRouterWork g n t st1 of
                           (err, w2) \<Rightarrow> Some (err, st1, w2))
                    | NodeTypeEnd \<Rightarrow>
                        (case completeGraph w1 g st1 ExecutionStatusCompleted [] of
                           (st2, w2) \<Rightarrow> Some (None, st2, w2)))))) = Some r"
    show "g = gid \<longrightarrow> P w n st r"
    proof
      assume g: "g = gid"
      show "P w n st r"
      proof (cases "recurses st n")
        case True
        then obtain v ns where a: "GetNode (Graph st) n = Node NodeTypeStart v"
          "NodeStates st n = Some ns" "findNextNode (Graph st) n \<noteq> []"
          by (auto simp: recurses_def)
        with body have "f (snd (SaveState w (setRunning st n ns (clock w)))) g
            (findNextNode (Graph st) n) (setRunning st n ns (clock w)) = Some r"
          by (simp add: Let_def)
        from IH [OF this] g a show ?thesis by (auto intro: step)
      next
        case False
        have "publishNodeWork w gid n st = Some r"
          using body False g
          by (subst publishNodeWork.simps)
             (auto simp: recurses_def Let_def split: node.splits option.splits node_type.splits if_splits)
        with False show ?thesis by (rule stop)
      qed
    qed
  qed
  then show ?thesis by simp
qed

section \<open>The validator rejects, and a rejected submission writes nothing\<close>

lemma validateNodes_empty_id:
  "([], n) \<in> set ns \<Longrightarrow> validateNodes ns nodeIDs \<noteq> None"
  by (induction ns arbitrary: nodeIDs) (auto simp: validateNode_def split: option.splits)

lemma validateEdges_dangling:
  "\<exists>e\<in>set es. map_of ns (From e) = None \<or> map_of ns (To e) = None \<Longrightarrow>
   validateEdges es ns \<noteq> None"
  by (induction es) auto

lemma Validate_rejects:
  assumes "Nodes g = [] \<or> ID g = [] \<or> Version g = []
           \<or> (\<exists>e\<in>set (Edges g). map_of (Nodes g) (From e) = None \<or> map_of (Nodes g) (To e) = None)
           \<or> (\<exists>n. ([], n) \<in> set (Nodes g))
           \<or> (EntryNode g \<noteq> [] \<and> map_of (Nodes g) (EntryNode g) = None)"
  shows "Validate (Some g) \<noteq> None"
proof -
  consider (nodes) "Nodes g = []" | (ident) "ID g = [] \<or> Version g = []"
    | (edge) "\<exists>e\<in>set (Edges g). map_of (Nodes g) (From e) = None \<or> map_of (Nodes g) (To e) = None"
    | (nodeid) "\<exists>n. ([], n) \<in> set (Nodes g)"
    | (entry) "EntryNode g \<noteq> [] \<and> map_of (Nodes g) (EntryNode g) = None"
    using assms by blast
  then show ?thesis
  proof cases
    case nodes
    then show ?thesis by (simp add: Validate_def)
  next
    case ident
    then show ?thesis by (auto simp: Validate_def)
  next
    case edge
    from validateEdges_dangling [OF this] show ?thesis
      by (auto simp: Validate_def split: option.splits)
  next
    case nodeid
    then obtain n where "([], n) \<in> set (Nodes g)" ..
    from validateNodes_empty_id [OF this, of "\<lambda>_. False"] show ?thesis
      by (auto simp: Validate_def split: option.splits)
  next
    case entry
    then show ?thesis by (auto simp: Validate_def split: option.splits)
  qed
qed

lemma SubmitGraph_invalid:
  "Validate (Some g) = Some err \<Longrightarrow>
   SubmitGraph w g inputs =
     Some (Inl (ValidationFailed err),
           w\<lparr>metrics := metrics w @ [RecordGraphSubmitted ExecutionStatusFailed]\<rparr>)"
  by (simp add: SubmitGraph_def)

text \<open>
  Claim C7. A graph that breaks an admission invariant (no node, an empty id or version,
  an edge with an endpoint that is not a node, a node with the empty id, a non-empty
  entry node that is not a node) is refused by \<^verbatim>\<open>SubmitGraph\<close> with the validator's
  error, and nothing is written: the store, the tracker, the deadline contexts, the bus
  and the id supply are as before; only the failed-submission counter is recorded.
\<close>

theorem C7_invalid_graph_rejected:
  assumes "Nodes g = [] \<or> ID g = [] \<or> Version g = []
           \<or> (\<exists>e\<in>set (Edges g). map_of (Nodes g) (From e) = None \<or> map_of (Nodes g) (To e) = None)
           \<or> (\<exists>n. ([], n) \<in> set (Nodes g))
           \<or> (EntryNode g \<noteq> [] \<and> map_of (Nodes g) (EntryNode g) = None)"
  shows "\<exists>err w'. Validate (Some g) = Some err
           \<and> SubmitGraph w g inputs = Some (Inl (ValidationFailed err), w')
           \<and> states w' = states w \<and> executions w' = executions w \<and> contexts w' = contexts w
           \<and> published w' = published w \<and> next_uuid w' = next_uuid w
           \<and> metrics w' = metrics w @ [RecordGraphSubmitted ExecutionStatusFailed]"
proof -
  from Validate_rejects [OF assms] obtain err where "Validate (Some g) = Some err" by blast
  then show ?thesis by (simp add: SubmitGraph_invalid)
qed

theorem C7_invalid_graph_rejected_witness:
  "(\<exists>e\<in>set (Edges g_dangling). map_of (Nodes g_dangling) (To e) = None)
   \<and> (\<exists>w'. SubmitGraph w_init g_dangling Map.empty
              = Some (Inl (ValidationFailed (EdgeTargetMissing ''Z'')), w')
            \<and> states w' = states w_init \<and> published w' = [])"
  using C7_invalid_graph_rejected [of g_dangling w_init Map.empty]
  by (auto simp: g_dangling_def w_init_def Validate_def validateNode_def)

lemma pnw_stop_cases [consumes 2, case_names notfound panic work endnode nosucc]:
  assumes "\<not> recurses st n" and "publishNodeWork w gid n st = Some r"
  obtains
    (notfound) "GetNode (Graph st) n = NilNode" "r = (Some (NodeNotFound n), st, w)"
  | (panic) t v where "GetNode (Graph st) n = Node t v" "NodeStates st n = None"
      "r = (Some (NilNodeStatePanic n), st, w)"
  | (work) t v ns topic where "GetNode (Graph st) n = Node t v" "NodeStates st n = Some ns"
      "(t = NodeTypeExecutor \<and> topic = TopicExecutorWork)
       \<or> (t = NodeTypeRouter \<and> topic = TopicRouterWork)"
      "r = (fst (publishWork (snd (SaveState w (setRunning st n ns (clock w)))) topic gid n t
                   (setRunning st n ns (clock w))),
            setRunning st n ns (clock w),
            snd (publishWork (snd (SaveState w (setRunning st n ns (clock w)))) topic gid n t
                   (setRunning st n ns (clock w))))"
  | (endnode) v ns where "GetNode (Graph st) n = Node NodeTypeEnd v" "NodeStates st n = Some ns"
      "r = (None, completeGraph (snd (SaveState w (setRunning st n ns (clock w)))) gid
                    (setRunning st n ns (clock w)) ExecutionStatusCompleted [])"
  | (nosucc) v ns where "GetNode (Graph st) n = Node NodeTypeStart v" "NodeStates st n = Some ns"
      "findNextNode (Graph st) n = []"
      "r = (None, setRunning st n ns (clock w), snd (SaveState w (setRunning st n ns (clock w))))"
proof (cases "GetNode (Graph st) n")
  case NilNode
  with assms(2) show ?thesis by (intro notfound) (simp_all add: pnw_nil)
next
  case (Node t v)
  show ?thesis
  proof (cases "NodeStates st n")
    case None
    with Node assms(2) show ?thesis by (intro panic [of t v]) (simp_all add: pnw_panic)
  next
    case (Some ns)
    show ?thesis
    proof (cases t)
      case NodeTypeStart
      with Node Some assms(1) have nx: "findNextNode (Graph st) n = []"
        by (simp add: recurses_def)
      with Node Some NodeTypeStart assms(2) show ?thesis
        by (intro nosucc [of v ns]) (simp_all add: pnw_start)
    next
      case NodeTypeExecutor
      with Node Some assms(2) show ?thesis
        by (intro work [of t v ns TopicExecutorWork]) (simp_all add: pnw_executor)
    next
      case NodeTypeRouter
      with Node Some assms(2) show ?thesis
        by (intro work [of t v ns TopicRouterWork]) (simp_all add: pnw_router)
    next
      case NodeTypeEnd
      with Node Some assms(2) show ?thesis
        by (intro endnode [of v ns]) (simp_all add: pnw_end)
    qed
  qed
qed

section \<open>What a dispatch leaves behind\<close>

text \<open>The fields of the record that no dispatch writes.\<close>

lemma publishNodeWork_fields:
  assumes "publishNodeWork w gid n st = Some r"
  shows "GraphID (fst (snd r)) = GraphID st \<and> Graph (fst (snd r)) = Graph st
         \<and> Inputs (fst (snd r)) = Inputs st \<and> SubmittedAt (fst (snd r)) = SubmittedAt st
         \<and> StartedAt (fst (snd r)) = StartedAt st \<and> Error (fst (snd r)) = Error st
         \<and> dom (NodeStates (fst (snd r))) = dom (NodeStates st)"
  using assms
proof (induction rule: publishNodeWork_induct)
  case (stop w n st r)
  from stop show ?case
    by (cases rule: pnw_stop_cases) (auto simp: completeGraph_fst split: if_splits)
next
  case (step w n st v ns r)
  then show ?case by (auto split: if_splits)
qed

text \<open>The world outside the store, the tracker and the bus log.\<close>

lemma publishNodeWork_frame:
  assumes "publishNodeWork w gid n st = Some r"
  shows "clock (snd (snd r)) = clock w \<and> bus_rejects (snd (snd r)) = bus_rejects w
         \<and> next_uuid w \<le> next_uuid (snd (snd r))"
  using assms
proof (induction rule: publishNodeWork_induct)
  case (stop w n st r)
  from stop show ?case
    by (cases rule: pnw_stop_cases) auto
next
  case (step w n st v ns r)
  then show ?case by simp
qed

text \<open>
  The status: a dispatch that returns an error leaves it; one that returns none leaves
  it or has completed the record at an end node.
\<close>

lemma publishNodeWork_status:
  assumes "publishNodeWork w gid n st = Some r"
  shows "(Status (fst (snd r)) = Status st \<and> CompletedAt (fst (snd r)) = CompletedAt st)
         \<or> (fst r = None \<and> Status (fst (snd r)) = ExecutionStatusCompleted
            \<and> CompletedAt (fst (snd r)) = Some (clock w))"
  using assms
proof (induction rule: publishNodeWork_induct)
  case (stop w n st r)
  from stop show ?case
    by (cases rule: pnw_stop_cases) (auto simp: completeGraph_fst)
next
  case (step w n st v ns r)
  then show ?case by simp
qed

text \<open>The node states: each is as before, or has been set running, started now.\<close>

lemma publishNodeWork_node_states:
  assumes "publishNodeWork w gid n st = Some r"
  shows "NodeStates (fst (snd r)) m = NodeStates st m
         \<or> (\<exists>ns. NodeStates st m = Some ns
               \<and> NodeStates (fst (snd r)) m
                  = Some (ns\<lparr>NodeStatus := ExecutionStatusRunning, NodeStartedAt := Some (clock w)\<rparr>))"
  using assms
proof (induction rule: publishNodeWork_induct)
  case (stop w n st r)
  from stop show ?case
    by (cases rule: pnw_stop_cases) (auto simp: completeGraph_fst)
next
  case (step w n st v ns r)
  then show ?case by (cases "m = n") auto
qed

text \<open>The store: the record of the dispatch is the only one written, and it is the one returned.\<close>

lemma publishNodeWork_states:
  assumes "publishNodeWork w gid n st = Some r"
  shows "(states (snd (snd r)) = states w \<and> fst (snd r) = st)
         \<or> states (snd (snd r)) = (states w)(GraphID st \<mapsto> fst (snd r))"
  using assms
proof (induction rule: publishNodeWork_induct)
  case (stop w n st r)
  from stop show ?case
    by (cases rule: pnw_stop_cases) (auto simp: completeGraph_fst)
next
  case (step w n st v ns r)
  then show ?case by auto
qed

text \<open>A dispatch panics only on a node of the graph that has no state.\<close>

lemma publishNodeWork_no_panic:
  assumes "publishNodeWork w gid n st = Some r"
    and "\<forall>m. GetNode (Graph st) m \<noteq> NilNode \<longrightarrow> NodeStates st m \<noteq> None"
  shows "panic_of (fst r) = None"
  using assms
proof (induction rule: publishNodeWork_induct)
  case (stop w n st r)
  from stop(1,2) show ?case
  proof (cases rule: pnw_stop_cases)
    case (panic t v)
    with stop(3) have False by (metis node.distinct(1) option.distinct(1))
    then show ?thesis ..
  qed (simp_all add: panic_of_def)
next
  case (step w n st v ns r)
  then show ?case by auto
qed

section \<open>When a dispatch returns\<close>

lemma publishNodeWork_returns:
  "dispatchEnds k (Graph st) n \<Longrightarrow> \<exists>r. publishNodeWork w gid n st = Some r"
proof (induction k arbitrary: w st n)
  case 0
  show ?case
  proof (cases "GetNode (Graph st) n")
    case NilNode
    then show ?thesis by (simp add: pnw_nil)
  next
    case (Node t v)
    show ?thesis
    proof (cases "NodeStates st n")
      case None
      with Node show ?thesis by (simp add: pnw_panic)
    next
      case (Some ns)
      with Node 0 show ?thesis
        by (cases t) (simp_all add: pnw_start pnw_executor pnw_router pnw_end)
    qed
  qed
next
  case (Suc k)
  show ?case
  proof (cases "GetNode (Graph st) n")
    case NilNode
    then show ?thesis by (simp add: pnw_nil)
  next
    case (Node t v)
    show ?thesis
    proof (cases "NodeStates st n")
      case None
      with Node show ?thesis by (simp add: pnw_panic)
    next
      case (Some ns)
      show ?thesis
      proof (cases t)
        case NodeTypeStart
        show ?thesis
        proof (cases "findNextNode (Graph st) n = []")
          case True
          with Node Some NodeTypeStart show ?thesis by (simp add: pnw_start)
        next
          case False
          with Suc.prems Node NodeTypeStart
          have "dispatchEnds k (Graph (setRunning st n ns (clock w))) (findNextNode (Graph st) n)"
            by simp
          from Suc.IH [OF this] Node Some NodeTypeStart False show ?thesis
            by (simp add: pnw_start)
        qed
      qed (use Node Some in \<open>simp_all add: pnw_executor pnw_router pnw_end\<close>)
    qed
  qed
qed

section \<open>The invariant\<close>

lemma record_ok_mono:
  "record_ok w k st \<Longrightarrow> next_uuid w \<le> next_uuid w' \<Longrightarrow> record_ok w' k st"
  by (auto simp: record_ok_def)

text \<open>A step that touches neither store nor tracker nor contexts keeps the invariant.\<close>

lemma world_inv_frame:
  assumes "world_inv w" "states w' = states w" "executions w' = executions w"
    "contexts w' = contexts w" "next_uuid w \<le> next_uuid w'"
  shows "world_inv w'"
  using assms unfolding world_inv_def by (auto intro: record_ok_mono)

text \<open>Saving a record that is in order, with the status it had, keeps the invariant.\<close>

lemma record_ok_SaveState [simp]:
  "record_ok (snd (SaveState w x)) k st = record_ok w k st"
  by (simp add: record_ok_def)

lemma world_inv_save:
  assumes "world_inv w" "states w (GraphID st') = Some st" "record_ok w (GraphID st') st'"
    "Status st' = Status st"
  shows "world_inv (snd (SaveState w st'))"
proof -
  have 1: "\<forall>k r. states (snd (SaveState w st')) k = Some r \<longrightarrow> record_ok (snd (SaveState w st')) k r"
    using assms(1,3) by (auto simp: world_inv_def)
  have 2: "\<forall>k ec. executions (snd (SaveState w st')) k = Some ec \<longrightarrow>
             status ec = ExecutionStatusRunning
             \<and> (\<exists>r. states (snd (SaveState w st')) k = Some r \<and> Status r = ExecutionStatusRunning)"
  proof (intro allI impI)
    fix k ec assume "executions (snd (SaveState w st')) k = Some ec"
    then have e: "executions w k = Some ec" by simp
    with assms(1) obtain r where r: "status ec = ExecutionStatusRunning" "states w k = Some r"
      "Status r = ExecutionStatusRunning"
      unfolding world_inv_def by blast
    show "status ec = ExecutionStatusRunning
          \<and> (\<exists>r. states (snd (SaveState w st')) k = Some r \<and> Status r = ExecutionStatusRunning)"
    proof (cases "k = GraphID st'")
      case True
      with r assms(2,4) show ?thesis by simp
    next
      case False
      with r show ?thesis by simp
    qed
  qed
  have 3: "\<forall>k. contexts (snd (SaveState w st')) k = Some CtxActive
             \<longrightarrow> executions (snd (SaveState w st')) k \<noteq> None"
    using assms(1) by (simp add: world_inv_def)
  from 1 2 3 show ?thesis unfolding world_inv_def by blast
qed

lemma record_ok_setRunning:
  "record_ok w k st \<Longrightarrow> record_ok w k (setRunning st n ns t)"
  by (auto simp: record_ok_def)

lemma world_inv_setRunning:
  assumes "world_inv w" "states w gid = Some st"
  shows "world_inv (snd (SaveState w (setRunning st n ns t)))
         \<and> states (snd (SaveState w (setRunning st n ns t))) gid = Some (setRunning st n ns t)"
proof -
  from assms have ok: "record_ok w gid st" by (simp add: world_inv_def)
  then have g: "GraphID st = gid" by (simp add: record_ok_def)
  from ok have "record_ok w (GraphID (setRunning st n ns t)) (setRunning st n ns t)"
    using g by (simp add: record_ok_setRunning)
  with assms g show ?thesis by (simp add: world_inv_save)
qed

text \<open>
  Driving a stored record to a terminal status keeps the invariant: the tracker entry
  goes and the deadline context is cancelled.
\<close>

lemma world_inv_completeGraph:
  assumes "world_inv w" "states w gid = Some st" "terminal s"
  shows "world_inv (snd (completeGraph w gid st s msg))
         \<and> states (snd (completeGraph w gid st s msg)) gid = Some (fst (completeGraph w gid st s msg))"
proof -
  from assms have ok: "record_ok w gid st" by (simp add: world_inv_def)
  then have g: "GraphID st = gid" by (simp add: record_ok_def)
  let ?w = "snd (completeGraph w gid st s msg)"
  let ?st = "fst (completeGraph w gid st s msg)"
  have ok': "record_ok ?w gid ?st"
    using ok assms(3) by (auto simp: record_ok_def completeGraph_fst)
  have 1: "\<forall>k r. states ?w k = Some r \<longrightarrow> record_ok ?w k r"
    using assms(1) ok' g by (auto simp: world_inv_def intro: record_ok_mono [where w = w])
  have 2: "\<forall>k ec. executions ?w k = Some ec \<longrightarrow>
             status ec = ExecutionStatusRunning
             \<and> (\<exists>r. states ?w k = Some r \<and> Status r = ExecutionStatusRunning)"
    using assms(1) g by (auto simp: world_inv_def)
  have 3: "\<forall>k. contexts ?w k = Some CtxActive \<longrightarrow> executions ?w k \<noteq> None"
    using assms(1) by (auto simp: world_inv_def split: if_splits)
  from 1 2 3 g show ?thesis by (simp add: world_inv_def)
qed

text \<open>A dispatch on the stored record keeps the invariant, and stores what it returns.\<close>

lemma world_inv_publishNodeWork:
  assumes "publishNodeWork w gid n st = Some r" "world_inv w" "states w gid = Some st"
  shows "world_inv (snd (snd r)) \<and> states (snd (snd r)) gid = Some (fst (snd r))"
  using assms
proof (induction rule: publishNodeWork_induct)
  case (stop w n st r)
  from stop(1,2) show ?case
  proof (cases rule: pnw_stop_cases)
    case notfound
    with stop show ?thesis by simp
  next
    case (panic t v)
    with stop show ?thesis by simp
  next
    case (work t v ns topic)
    let ?w1 = "snd (SaveState w (setRunning st n ns (clock w)))"
    from world_inv_setRunning [OF stop(3,4), of n ns "clock w"]
    have a: "world_inv ?w1" "states ?w1 gid = Some (setRunning st n ns (clock w))"
      by simp_all
    have "world_inv (snd (publishWork ?w1 topic gid n t (setRunning st n ns (clock w))))"
      by (rule world_inv_frame [OF a(1)]) simp_all
    with a(2) work(4) show ?thesis by simp
  next
    case (endnode v ns)
    from world_inv_setRunning [OF stop(3,4), of n ns "clock w"]
    have "world_inv (snd (SaveState w (setRunning st n ns (clock w))))"
      "states (snd (SaveState w (setRunning st n ns (clock w)))) gid
         = Some (setRunning st n ns (clock w))"
      by simp_all
    from world_inv_completeGraph [OF this, of ExecutionStatusCompleted "[]"] endnode(3)
    show ?thesis by (simp add: terminal_def)
  next
    case (nosucc v ns)
    from world_inv_setRunning [OF stop(3,4), of n ns "clock w"] nosucc(4) show ?thesis
      by simp
  qed
next
  case (step w n st v ns r)
  from world_inv_setRunning [OF step(5,6), of n ns "clock w"] step(4) show ?case
    by blast
qed

section \<open>The stages of a submission\<close>

lemma initNodeStates_eq:
  "initNodeStates ns m n =
     (if n \<in> fst ` set ns
      then Some \<lparr>NodeID = n, NodeStatus = ExecutionStatusPending, NodeStartedAt = None,
                 NodeCompletedAt = None, Output = ANil, NodeError = []\<rparr>
      else m n)"
  by (induction ns arbitrary: m) fastforce+

lemma GetNode_in_Nodes:
  "GetNode g n \<noteq> NilNode \<Longrightarrow> n \<in> fst ` set (Nodes g)"
  by (force simp: GetNode_def split: option.splits dest: map_of_SomeD)

lemma initialState_simps [simp]:
  "GraphID (initialState gid g inputs now) = gid"
  "Graph (initialState gid g inputs now) = g"
  "Status (initialState gid g inputs now) = ExecutionStatusRunning"
  "Inputs (initialState gid g inputs now) = inputs"
  "SubmittedAt (initialState gid g inputs now) = now"
  "StartedAt (initialState gid g inputs now) = None"
  "CompletedAt (initialState gid g inputs now) = None"
  "Error (initialState gid g inputs now) = []"
  "NodeStates (initialState gid g inputs now) n =
     (if n \<in> fst ` set (Nodes g)
      then Some \<lparr>NodeID = n, NodeStatus = ExecutionStatusPending, NodeStartedAt = None,
                 NodeCompletedAt = None, Output = ANil, NodeError = []\<rparr>
      else None)"
  by (simp_all add: initialState_def initNodeStates_eq)

lemma persisted_simps [simp]:
  "states (persisted w g inputs) =
     (states w)(next_uuid w \<mapsto> initialState (next_uuid w) g inputs (clock w))"
  "executions (persisted w g inputs) = executions w"
  "contexts (persisted w g inputs) = contexts w"
  "published (persisted w g inputs) = published w"
  "bus_rejects (persisted w g inputs) = bus_rejects w"
  "metrics (persisted w g inputs) = metrics w"
  "next_uuid (persisted w g inputs) = Suc (next_uuid w)"
  "clock (persisted w g inputs) = clock w"
  by (simp_all add: persisted_def uuid_New_def)

lemma tracked_simps [simp]:
  "states (tracked w g inputs) =
     (states w)(next_uuid w \<mapsto> initialState (next_uuid w) g inputs (clock w))"
  "executions (tracked w g inputs) =
     (executions w)(next_uuid w \<mapsto>
        \<lparr>graphID = next_uuid w, status = ExecutionStatusRunning, startedAt = clock w\<rparr>)"
  "contexts (tracked w g inputs) = (contexts w)(next_uuid w \<mapsto> CtxActive)"
  "published (tracked w g inputs) =
     published w @ (if bus_rejects w TopicGraphEvents (submitted_event w g) then []
                    else [(TopicGraphEvents, submitted_event w g)])"
  "bus_rejects (tracked w g inputs) = bus_rejects w"
  "metrics (tracked w g inputs) = metrics w @ [RecordGraphSubmitted ExecutionStatusSubmitted]"
  "next_uuid (tracked w g inputs) = Suc (Suc (next_uuid w))"
  "clock (tracked w g inputs) = clock w"
  by (simp_all add: tracked_def trackExecution_def submitted_event_def)

text \<open>A valid graph whose submitted event the bus rejects: the error, with the record saved.\<close>

lemma SubmitGraph_rejected:
  assumes "Validate (Some g) = None" "bus_rejects w TopicGraphEvents (submitted_event w g)"
  shows "SubmitGraph w g inputs =
           Some (Inl PublishRejected,
                 snd (publishGraphEvent (persisted w g inputs) (next_uuid w)
                        EventTypeGraphSubmitted [''original_graph_id'' \<mapsto> VAny (AStr (ID g))]))"
  using assms
  by (simp add: SubmitGraph_def persisted_def uuid_New_def SaveState_def publishGraphEvent_def
      Publish_def submitted_event_def)

text \<open>A valid graph whose submitted event the bus accepts: the entry dispatch decides.\<close>

lemma SubmitGraph_accepted:
  assumes "Validate (Some g) = None" "\<not> bus_rejects w TopicGraphEvents (submitted_event w g)"
  shows "SubmitGraph w g inputs =
           (case publishNodeWork (tracked w g inputs) (next_uuid w) (EntryNode g)
                   (initialState (next_uuid w) g inputs (clock w)) of
              None \<Rightarrow> None
            | Some (err, st', w') \<Rightarrow>
                (case panic_of err of
                   Some p \<Rightarrow> Some (Inl p, w')
                 | None \<Rightarrow> Some (Inr (next_uuid w), w')))"
  using assms
  by (simp add: SubmitGraph_def tracked_def persisted_def uuid_New_def SaveState_def
      publishGraphEvent_def Publish_def submitted_event_def)

lemma record_ok_initialState:
  "Validate (Some g) = None \<Longrightarrow> k < next_uuid w \<Longrightarrow> record_ok w k (initialState k g inputs now)"
  by (auto simp: record_ok_def dest: GetNode_in_Nodes)

lemma world_inv_fresh_key:
  "world_inv w \<Longrightarrow> states w (next_uuid w) = None"
proof (rule ccontr)
  assume "world_inv w" "states w (next_uuid w) \<noteq> None"
  then obtain st where "states w (next_uuid w) = Some st" "record_ok w (next_uuid w) st"
    by (auto simp: world_inv_def)
  then show False by (simp add: record_ok_def)
qed

lemma world_inv_persisted:
  assumes "world_inv w" "Validate (Some g) = None"
  shows "world_inv (persisted w g inputs)"
proof -
  let ?w = "persisted w g inputs"
  have 1: "\<forall>k r. states ?w k = Some r \<longrightarrow> record_ok ?w k r"
    using assms by (auto simp: world_inv_def intro: record_ok_initialState record_ok_mono [where w = w])
  have 2: "\<forall>k ec. executions ?w k = Some ec \<longrightarrow>
             status ec = ExecutionStatusRunning
             \<and> (\<exists>r. states ?w k = Some r \<and> Status r = ExecutionStatusRunning)"
    using assms(1) by (auto simp: world_inv_def)
  have 3: "\<forall>k. contexts ?w k = Some CtxActive \<longrightarrow> executions ?w k \<noteq> None"
    using assms(1) by (simp add: world_inv_def)
  from 1 2 3 show ?thesis unfolding world_inv_def by blast
qed

lemma world_inv_tracked:
  assumes "world_inv w" "Validate (Some g) = None"
  shows "world_inv (tracked w g inputs)"
proof -
  let ?w = "tracked w g inputs"
  have 1: "\<forall>k r. states ?w k = Some r \<longrightarrow> record_ok ?w k r"
    using assms by (auto simp: world_inv_def intro: record_ok_initialState record_ok_mono [where w = w])
  have 2: "\<forall>k ec. executions ?w k = Some ec \<longrightarrow>
             status ec = ExecutionStatusRunning
             \<and> (\<exists>r. states ?w k = Some r \<and> Status r = ExecutionStatusRunning)"
    using assms(1) by (auto simp: world_inv_def)
  have 3: "\<forall>k. contexts ?w k = Some CtxActive \<longrightarrow> executions ?w k \<noteq> None"
    using assms(1) by (simp add: world_inv_def)
  from 1 2 3 show ?thesis unfolding world_inv_def by blast
qed

lemma world_inv_SubmitGraph:
  assumes "world_inv w" "SubmitGraph w g inputs = Some (r, w')"
  shows "world_inv w'"
proof (cases "Validate (Some g)")
  case (Some err)
  with assms(2) have "w' = w\<lparr>metrics := metrics w @ [RecordGraphSubmitted ExecutionStatusFailed]\<rparr>"
    by (simp add: SubmitGraph_invalid)
  with assms(1) show ?thesis by (auto intro: world_inv_frame)
next
  case None
  show ?thesis
  proof (cases "bus_rejects w TopicGraphEvents (submitted_event w g)")
    case True
    with None assms(2)
    have w': "w' = snd (publishGraphEvent (persisted w g inputs) (next_uuid w)
                        EventTypeGraphSubmitted [''original_graph_id'' \<mapsto> VAny (AStr (ID g))])"
      by (simp add: SubmitGraph_rejected)
    show ?thesis unfolding w'
      by (rule world_inv_frame [OF world_inv_persisted [OF assms(1) None]]) simp_all
  next
    case False
    from assms(2) obtain err st' where
      run: "publishNodeWork (tracked w g inputs) (next_uuid w) (EntryNode g)
              (initialState (next_uuid w) g inputs (clock w)) = Some (err, st', w')"
      by (auto simp: SubmitGraph_accepted [OF None False] split: option.splits)
    from world_inv_publishNodeWork [OF run world_inv_tracked [OF assms(1) None]]
    show ?thesis by simp
  qed
qed

section \<open>The completion handler, case by case\<close>

lemma setCompleted_simps [simp]:
  "GraphID (setCompleted st n ns t h e out) = GraphID st"
  "Graph (setCompleted st n ns t h e out) = Graph st"
  "Status (setCompleted st n ns t h e out) = Status st"
  "Inputs (setCompleted st n ns t h e out) = Inputs st"
  "SubmittedAt (setCompleted st n ns t h e out) = SubmittedAt st"
  "StartedAt (setCompleted st n ns t h e out) = StartedAt st"
  "CompletedAt (setCompleted st n ns t h e out) = CompletedAt st"
  "Error (setCompleted st n ns t h e out) = Error st"
  "NodeStates (setCompleted st n ns t h e out) =
     (NodeStates st)(n \<mapsto>
        (if h then ns\<lparr>NodeStatus := ExecutionStatusFailed, NodeCompletedAt := Some t, NodeError := e\<rparr>
         else ns\<lparr>NodeStatus := ExecutionStatusCompleted, NodeCompletedAt := Some t, Output := out\<rparr>))"
  by (simp_all add: setCompleted_def)

text \<open>No record under the id, or no state for the node: the event is dropped.\<close>

lemma handleNodeCompleted_dropped:
  assumes "states w (ExecutionID ev) = None
           \<or> (\<exists>st. states w (ExecutionID ev) = Some st
                  \<and> NodeStates st (fst (as_string (Data ev ''node_id''))) = None)"
  shows "handleNodeCompleted w ev = Some (None, w)"
  using assms by (auto simp: handleNodeCompleted_def GetState_def Let_def)

text \<open>An event with an error: the node fails and the record is driven to failed.\<close>

lemma handleNodeCompleted_failed:
  assumes "states w (ExecutionID ev) = Some st"
    "NodeStates st (fst (as_string (Data ev ''node_id''))) = Some ns"
    "snd (as_string (Data ev ''error''))"
  shows "handleNodeCompleted w ev =
     Some (None,
       snd (completeGraph
              (snd (SaveState w
                 (setCompleted st (fst (as_string (Data ev ''node_id''))) ns (clock w) True
                    (fst (as_string (Data ev ''error''))) (as_any (Data ev ''output'')))))
              (ExecutionID ev)
              (setCompleted st (fst (as_string (Data ev ''node_id''))) ns (clock w) True
                 (fst (as_string (Data ev ''error''))) (as_any (Data ev ''output'')))
              ExecutionStatusFailed (fst (as_string (Data ev ''error'')))))"
  using assms by (simp add: handleNodeCompleted_def GetState_def Let_def)

text \<open>
  An event without error: the successor is the event's next node if it has one, else
  what \<^verbatim>\<open>findNextNode\<close> gives; with no successor the record is driven to completed, else
  the successor is dispatched.
\<close>

lemma handleNodeCompleted_succeeded:
  assumes "states w (ExecutionID ev) = Some st"
    "NodeStates st (fst (as_string (Data ev ''node_id''))) = Some ns"
    "\<not> snd (as_string (Data ev ''error''))"
    "st1 = setCompleted st (fst (as_string (Data ev ''node_id''))) ns (clock w) False
             (fst (as_string (Data ev ''error''))) (as_any (Data ev ''output''))"
    "nextNode = (if fst (as_string (Data ev ''next_node'')) \<noteq> []
                 then fst (as_string (Data ev ''next_node''))
                 else findNextNode (Graph st) (fst (as_string (Data ev ''node_id''))))"
  shows "handleNodeCompleted w ev =
     (if nextNode = []
      then Some (None, snd (completeGraph (snd (SaveState w st1)) (ExecutionID ev) st1
                              ExecutionStatusCompleted []))
      else map_option (\<lambda>r. (panic_of (fst r), snd (snd r)))
             (publishNodeWork (snd (SaveState w st1)) (ExecutionID ev) nextNode st1))"
  using assms
  by (auto simp: handleNodeCompleted_def GetState_def Let_def split: option.splits)

section \<open>Every operation keeps the invariant\<close>

lemma record_ok_setCompleted:
  "record_ok w k st \<Longrightarrow> record_ok w k (setCompleted st n ns t h e out)"
  by (auto simp: record_ok_def)

lemma world_inv_setCompleted:
  assumes "world_inv w" "states w gid = Some st"
  shows "world_inv (snd (SaveState w (setCompleted st n ns t h e out)))
         \<and> states (snd (SaveState w (setCompleted st n ns t h e out))) gid
             = Some (setCompleted st n ns t h e out)"
proof -
  from assms have ok: "record_ok w gid st" by (simp add: world_inv_def)
  then have g: "GraphID st = gid" by (simp add: record_ok_def)
  from ok have "record_ok w (GraphID (setCompleted st n ns t h e out)) (setCompleted st n ns t h e out)"
    using g by (simp add: record_ok_setCompleted)
  with assms g show ?thesis by (simp add: world_inv_save)
qed

lemma world_inv_handleNodeCompleted:
  assumes "world_inv w" "handleNodeCompleted w ev = Some (r, w')"
  shows "world_inv w'"
proof (cases "states w (ExecutionID ev)")
  case None
  with assms show ?thesis by (simp add: handleNodeCompleted_dropped)
next
  case (Some st)
  show ?thesis
  proof (cases "NodeStates st (fst (as_string (Data ev ''node_id'')))")
    case None
    with Some assms show ?thesis by (simp add: handleNodeCompleted_dropped)
  next
    case ns: (Some ns)
    show ?thesis
    proof (cases "snd (as_string (Data ev ''error''))")
      case True
      let ?st1 = "setCompleted st (fst (as_string (Data ev ''node_id''))) ns (clock w) True
                    (fst (as_string (Data ev ''error''))) (as_any (Data ev ''output''))"
      from world_inv_setCompleted [OF assms(1) Some]
      have a: "world_inv (snd (SaveState w ?st1))"
        "states (snd (SaveState w ?st1)) (ExecutionID ev) = Some ?st1"
        by simp_all
      from world_inv_completeGraph [OF a, of ExecutionStatusFailed]
        assms(2) handleNodeCompleted_failed [OF Some ns True]
      show ?thesis by (auto simp: terminal_def)
    next
      case False
      define st1 where "st1 = setCompleted st (fst (as_string (Data ev ''node_id''))) ns (clock w)
          False (fst (as_string (Data ev ''error''))) (as_any (Data ev ''output''))"
      define nextNode where "nextNode = (if fst (as_string (Data ev ''next_node'')) \<noteq> []
                 then fst (as_string (Data ev ''next_node''))
                 else findNextNode (Graph st) (fst (as_string (Data ev ''node_id''))))"
      note eq = handleNodeCompleted_succeeded [OF Some ns False st1_def nextNode_def]
      from world_inv_setCompleted [OF assms(1) Some]
      have a: "world_inv (snd (SaveState w st1))"
        "states (snd (SaveState w st1)) (ExecutionID ev) = Some st1"
        by (simp_all add: st1_def)
      show ?thesis
      proof (cases "nextNode = []")
        case True
        from world_inv_completeGraph [OF a, of ExecutionStatusCompleted] assms(2) eq True
        show ?thesis by (auto simp: terminal_def)
      next
        case False
        with assms(2) eq obtain res where
          run: "publishNodeWork (snd (SaveState w st1)) (ExecutionID ev) nextNode st1 = Some res"
          and w': "w' = snd (snd res)"
          by auto
        from world_inv_publishNodeWork [OF run a] w' show ?thesis by simp
      qed
    qed
  qed
qed

text \<open>Cancelling in a world that satisfies the invariant.\<close>

lemma CancelExecution_untracked:
  "executions w gid = None \<Longrightarrow> CancelExecution w gid = (Some (ExecutionNotFound gid), w)"
  by (simp add: CancelExecution_def)

lemma CancelExecution_running:
  assumes "executions w gid = Some ec" "status ec = ExecutionStatusRunning"
    "states w gid = Some st"
  shows "fst (CancelExecution w gid) = None"
    and "states (snd (CancelExecution w gid)) =
           (states w)(GraphID st \<mapsto> st\<lparr>Status := ExecutionStatusCancelled,
                                          CompletedAt := Some (clock w)\<rparr>)"
    and "executions (snd (CancelExecution w gid)) = (executions w)(gid := None)"
    and "contexts (snd (CancelExecution w gid)) =
           (if contexts w gid = Some CtxActive then (contexts w)(gid \<mapsto> CtxCanceled)
            else contexts w)"
    and "next_uuid (snd (CancelExecution w gid)) = Suc (next_uuid w)"
  using assms
  by (auto simp: CancelExecution_def GetState_def Let_def SaveState_def split: prod.splits)

lemma world_inv_CancelExecution:
  assumes "world_inv w"
  shows "world_inv (snd (CancelExecution w gid))"
proof (cases "executions w gid")
  case None
  with assms show ?thesis by (simp add: CancelExecution_untracked)
next
  case (Some ec)
  with assms obtain st where st: "status ec = ExecutionStatusRunning" "states w gid = Some st"
    "Status st = ExecutionStatusRunning"
    unfolding world_inv_def by blast
  from assms st have ok: "record_ok w gid st" by (simp add: world_inv_def)
  then have g: "GraphID st = gid" by (simp add: record_ok_def)
  note c = CancelExecution_running [OF Some st(1,2)]
  let ?w = "snd (CancelExecution w gid)"
  have ok': "record_ok ?w gid (st\<lparr>Status := ExecutionStatusCancelled, CompletedAt := Some (clock w)\<rparr>)"
    using ok by (auto simp: record_ok_def c terminal_def)
  have nu: "next_uuid w \<le> next_uuid ?w" by (simp add: c)
  have 1: "\<forall>k r. states ?w k = Some r \<longrightarrow> record_ok ?w k r"
  proof (intro allI impI)
    fix k r assume a: "states ?w k = Some r"
    show "record_ok ?w k r"
    proof (cases "k = gid")
      case True
      with a ok' g show ?thesis by (simp add: c)
    next
      case False
      with a g have "states w k = Some r" by (simp add: c)
      with assms have "record_ok w k r" by (simp add: world_inv_def)
      then show ?thesis using nu by (rule record_ok_mono)
    qed
  qed
  have 2: "\<forall>k ec. executions ?w k = Some ec \<longrightarrow>
             status ec = ExecutionStatusRunning
             \<and> (\<exists>r. states ?w k = Some r \<and> Status r = ExecutionStatusRunning)"
    using assms g by (auto simp: c world_inv_def)
  have 3: "\<forall>k. contexts ?w k = Some CtxActive \<longrightarrow> executions ?w k \<noteq> None"
    using assms by (auto simp: c world_inv_def split: if_splits)
  from 1 2 3 show ?thesis unfolding world_inv_def by blast
qed

lemma monitorExecution_idle:
  "contexts w gid \<noteq> Some CtxDeadlineExceeded \<Longrightarrow> monitorExecution w gid = w"
  by (auto simp: monitorExecution_def split: option.splits ctx_state.splits)

text \<open>The monitor on an exceeded deadline: the timeout is handled on whatever record there is.\<close>

lemma monitorExecution_fires:
  assumes "contexts w gid = Some CtxDeadlineExceeded"
  shows "monitorExecution w gid =
           (case states w gid of
              None \<Rightarrow> w\<lparr>contexts := (contexts w)(gid \<mapsto> CtxHandled)\<rparr>
            | Some st \<Rightarrow>
                snd (completeGraph (w\<lparr>contexts := (contexts w)(gid \<mapsto> CtxHandled)\<rparr>) gid st
                       ExecutionStatusFailed ''execution timeout''))"
  using assms
  by (simp add: monitorExecution_def handleTimeout_def GetState_def split: option.splits)

lemma world_inv_expireDeadline:
  "world_inv w \<Longrightarrow> world_inv (expireDeadline w gid)"
  by (auto simp: world_inv_def record_ok_def)

lemma world_inv_monitorExecution:
  assumes "world_inv w"
  shows "world_inv (monitorExecution w gid)"
proof (cases "contexts w gid = Some CtxDeadlineExceeded")
  case False
  with assms show ?thesis by (simp add: monitorExecution_idle)
next
  case True
  let ?w = "w\<lparr>contexts := (contexts w)(gid \<mapsto> CtxHandled)\<rparr>"
  have inv: "world_inv ?w"
    using assms by (auto simp: world_inv_def record_ok_def)
  show ?thesis
  proof (cases "states w gid")
    case None
    with inv show ?thesis by (simp add: monitorExecution_fires [OF True])
  next
    case (Some st)
    then have "states ?w gid = Some st" by simp
    from world_inv_completeGraph [OF inv this, of ExecutionStatusFailed] Some
    show ?thesis by (simp add: monitorExecution_fires [OF True] terminal_def)
  qed
qed

text \<open>Every reachable world satisfies the invariant.\<close>

lemma reachable_world_inv: "reachable w \<Longrightarrow> world_inv w"
proof (induction rule: reachable.induct)
  case (start b t)
  show ?case by (simp add: world_inv_def)
next
  case (submit w g inputs r w')
  then show ?case by (blast intro: world_inv_SubmitGraph)
next
  case (completed w ev r w')
  then show ?case by (blast intro: world_inv_handleNodeCompleted)
next
  case (cancel w gid)
  then show ?case by (simp add: world_inv_CancelExecution)
next
  case (expire w gid)
  then show ?case by (simp add: world_inv_expireDeadline)
next
  case (timeout w gid)
  then show ?case by (simp add: world_inv_monitorExecution)
next
  case (environment w b t)
  then show ?case by (auto simp: world_inv_def record_ok_def)
qed

section \<open>Running the examples\<close>

lemmas run_defs =
  SubmitGraph_def Validate_def validateNode_def uuid_New_def SaveState_def publishGraphEvent_def
  Publish_def initialState_def trackExecution_def publishNodeWork.simps GetNode_def
  findNextNode_def GetOutgoingEdges_def publishWork_def panic_of_def Let_def completeGraph_def
  cancelFunc_def handleNodeCompleted_def GetState_def as_string_def as_any_def setRunning_def
  setCompleted_def CancelExecution_def handleTimeout_def monitorExecution_def
  expireDeadline_def graph_event_def
  work_event_def after_submit_def after_completed_def after_dispatch_def record_status_def
  node_status_def
  new_topics_def w_init_def g_linear_def g_single_def g_end_def g_noentry_def g_router_def
  g_dangling_def w_rejecting_def w_no_work_def w_cancelled_def w_expired_def completion_def
  completion_error_def completion_odd_error_def
  completion_next_def TopicGraphEvents_def TopicExecutorWork_def TopicRouterWork_def

lemma w_init_reachable: "reachable w_init"
  unfolding w_init_def by (rule reachable.start)

lemma after_submit_reachable: "reachable w \<Longrightarrow> reachable (after_submit w g)"
  by (auto simp: after_submit_def split: option.splits intro: reachable.submit)

lemma after_completed_reachable: "reachable w \<Longrightarrow> reachable (after_completed w ev)"
  by (auto simp: after_completed_def split: option.splits intro: reachable.completed)

text \<open>In a reachable world a tracked execution is running in the store.\<close>

lemma terminal_untracked:
  assumes "reachable w" "states w gid = Some st" "terminal (Status st)"
  shows "executions w gid = None" and "contexts w gid \<noteq> Some CtxActive"
proof -
  from assms(1) have inv: "world_inv w" by (rule reachable_world_inv)
  show e: "executions w gid = None"
  proof (rule ccontr)
    assume "executions w gid \<noteq> None"
    then obtain ec where "executions w gid = Some ec" by blast
    with inv obtain st' where "states w gid = Some st'" "Status st' = ExecutionStatusRunning"
      unfolding world_inv_def by blast
    with assms(2,3) show False by (simp add: terminal_def)
  qed
  from inv e show "contexts w gid \<noteq> Some CtxActive"
    unfolding world_inv_def by blast
qed

section \<open>Cancelling a terminal execution\<close>

text \<open>
  Claim C2. The claim asks that cancelling a terminal execution return the
  already-terminal error and not touch the stored record. \<^verbatim>\<open>CancelExecution\<close> tests the
  status in the tracker entry for that, but every terminal transition removes the
  tracker entry: in every reachable world, cancelling an execution whose record is
  completed, failed or cancelled finds no entry, returns the execution-not-found error,
  never the already-terminal one, and leaves the whole world, the record with it, as it
  was.
\<close>

theorem C2_cancel_terminal_not_found:
  assumes "reachable w" "states w gid = Some st" "terminal (Status st)"
  shows "CancelExecution w gid = (Some (ExecutionNotFound gid), w)"
  using terminal_untracked(1) [OF assms] by (rule CancelExecution_untracked)

theorem C2_cancel_terminal_not_found_witness:
  "record_status (after_submit w_init g_end) 0 = Some ExecutionStatusCompleted
   \<and> CancelExecution (after_submit w_init g_end) 0
       = (Some (ExecutionNotFound 0), after_submit w_init g_end)"
proof -
  have r: "reachable (after_submit w_init g_end)"
    by (intro after_submit_reachable w_init_reachable)
  have s: "record_status (after_submit w_init g_end) 0 = Some ExecutionStatusCompleted"
    by (simp add: run_defs)
  then obtain st where st: "states (after_submit w_init g_end) 0 = Some st"
    "Status st = ExecutionStatusCompleted"
    by (auto simp: record_status_def)
  then have "terminal (Status st)" by (simp add: terminal_def)
  from C2_cancel_terminal_not_found [OF r st(1) this] s show ?thesis by simp
qed

section \<open>What an operation does to the other records\<close>

lemma publishNodeWork_other_key:
  "publishNodeWork w gid n st = Some r \<Longrightarrow> k \<noteq> GraphID st \<Longrightarrow>
   states (snd (snd r)) k = states w k"
  using publishNodeWork_states [of w gid n st r] by auto

lemma SubmitGraph_other_key:
  assumes "SubmitGraph w g inputs = Some (r, w')" "k \<noteq> next_uuid w"
  shows "states w' k = states w k"
proof (cases "Validate (Some g)")
  case (Some err)
  with assms show ?thesis by (auto simp: SubmitGraph_invalid)
next
  case None
  show ?thesis
  proof (cases "bus_rejects w TopicGraphEvents (submitted_event w g)")
    case True
    with None assms show ?thesis by (auto simp: SubmitGraph_rejected)
  next
    case False
    from assms(1) obtain res where
      run: "publishNodeWork (tracked w g inputs) (next_uuid w) (EntryNode g)
              (initialState (next_uuid w) g inputs (clock w)) = Some res"
      and w': "w' = snd (snd res)"
      by (auto simp: SubmitGraph_accepted [OF None False] split: option.splits)
    from publishNodeWork_other_key [OF run, of k] assms(2) w' show ?thesis by simp
  qed
qed

lemma CancelExecution_other_key:
  assumes "world_inv w" "k \<noteq> gid"
  shows "states (snd (CancelExecution w gid)) k = states w k"
proof (cases "executions w gid")
  case None
  then show ?thesis by (simp add: CancelExecution_untracked)
next
  case (Some ec)
  with assms obtain st where st: "status ec = ExecutionStatusRunning" "states w gid = Some st"
    unfolding world_inv_def by blast
  with assms have "GraphID st = gid" by (simp add: world_inv_def record_ok_def)
  with CancelExecution_running(2) [OF Some st] assms(2) show ?thesis by simp
qed

lemma monitorExecution_other_key:
  assumes "world_inv w" "k \<noteq> gid"
  shows "states (monitorExecution w gid) k = states w k"
proof (cases "contexts w gid = Some CtxDeadlineExceeded")
  case False
  then show ?thesis by (simp add: monitorExecution_idle)
next
  case True
  show ?thesis
  proof (cases "states w gid")
    case None
    then show ?thesis by (simp add: monitorExecution_fires [OF True])
  next
    case (Some st)
    with assms have "GraphID st = gid" by (simp add: world_inv_def record_ok_def)
    with Some assms(2) show ?thesis by (simp add: monitorExecution_fires [OF True])
  qed
qed

text \<open>
  The monitor and the record of its own execution: untouched while the deadline is not
  exceeded, or once the monitor has run; driven to failed, whatever its status, when
  the monitor runs on the exceeded deadline.
\<close>

lemma monitorExecution_own_record:
  assumes "world_inv w" "states w gid = Some st"
  shows "states (monitorExecution w gid) gid =
           Some (if contexts w gid = Some CtxDeadlineExceeded
                 then st\<lparr>Status := ExecutionStatusFailed, CompletedAt := Some (clock w),
                         Error := ''execution timeout''\<rparr>
                 else st)"
proof (cases "contexts w gid = Some CtxDeadlineExceeded")
  case False
  with assms(2) show ?thesis by (simp add: monitorExecution_idle)
next
  case True
  from assms have "GraphID st = gid" by (simp add: world_inv_def record_ok_def)
  with True assms(2) show ?thesis
    by (simp add: monitorExecution_fires [OF True] completeGraph_fst)
qed

text \<open>
  A completion event writes no record but the one of its execution; that one keeps a
  terminal status if it had one.
\<close>

lemma handleNodeCompleted_record:
  assumes "world_inv w" "handleNodeCompleted w ev = Some (r, w')" "states w k = Some st0"
  shows "\<exists>st'. states w' k = Some st'
           \<and> (k \<noteq> ExecutionID ev \<longrightarrow> st' = st0)
           \<and> (terminal (Status st0) \<longrightarrow> terminal (Status st'))"
proof (cases "states w (ExecutionID ev)")
  case None
  with assms show ?thesis by (simp add: handleNodeCompleted_dropped)
next
  case (Some st)
  from assms(1) Some have g: "GraphID st = ExecutionID ev"
    by (simp add: world_inv_def record_ok_def)
  show ?thesis
  proof (cases "NodeStates st (fst (as_string (Data ev ''node_id'')))")
    case None
    with Some assms show ?thesis by (simp add: handleNodeCompleted_dropped)
  next
    case ns: (Some ns)
    show ?thesis
    proof (cases "snd (as_string (Data ev ''error''))")
      case True
      from assms(2) handleNodeCompleted_failed [OF Some ns True] g assms(3) Some
      show ?thesis by (auto simp: completeGraph_fst terminal_def)
    next
      case False
      define st1 where "st1 = setCompleted st (fst (as_string (Data ev ''node_id''))) ns (clock w)
          False (fst (as_string (Data ev ''error''))) (as_any (Data ev ''output''))"
      define nextNode where "nextNode = (if fst (as_string (Data ev ''next_node'')) \<noteq> []
                 then fst (as_string (Data ev ''next_node''))
                 else findNextNode (Graph st) (fst (as_string (Data ev ''node_id''))))"
      note eq = handleNodeCompleted_succeeded [OF Some ns False st1_def nextNode_def]
      have g1: "GraphID st1 = ExecutionID ev" and s1: "Status st1 = Status st"
        using g by (simp_all add: st1_def)
      show ?thesis
      proof (cases "nextNode = []")
        case True
        with assms(2) eq g1 assms(3) Some show ?thesis
          by (auto simp: completeGraph_fst terminal_def)
      next
        case False
        with assms(2) eq obtain res where
          run: "publishNodeWork (snd (SaveState w st1)) (ExecutionID ev) nextNode st1 = Some res"
          and w': "w' = snd (snd res)"
          by auto
        show ?thesis
        proof (cases "k = ExecutionID ev")
          case True
          from world_inv_setCompleted [OF assms(1) Some]
          have a: "world_inv (snd (SaveState w st1))"
            "states (snd (SaveState w st1)) (ExecutionID ev) = Some st1"
            by (simp_all add: st1_def)
          from world_inv_publishNodeWork [OF run a]
          have "states w' k = Some (fst (snd res))" using w' True by simp
          moreover from publishNodeWork_status [OF run] s1 assms(3) Some True
          have "terminal (Status st0) \<longrightarrow> terminal (Status (fst (snd res)))"
            by (auto simp: terminal_def)
          ultimately show ?thesis using True by simp
        next
          case False
          from publishNodeWork_other_key [OF run, of k] False g1 w' assms(3)
          show ?thesis by simp
        qed
      qed
    qed
  qed
qed

section \<open>Terminal records\<close>





section \<open>Submission when the bus fails\<close>

text \<open>The errors a dispatch can return.\<close>

lemma publishNodeWork_errors:
  assumes "publishNodeWork w gid n st = Some r"
  shows "fst r = None \<or> fst r = Some (PublishWorkFailed PublishRejected)
         \<or> (\<exists>m. fst r = Some (NodeNotFound m)) \<or> (\<exists>m. fst r = Some (NilNodeStatePanic m))"
  using assms
proof (induction rule: publishNodeWork_induct)
  case (stop w n st r)
  from stop show ?case by (cases rule: pnw_stop_cases) auto
next
  case (step w n st v ns r)
  then show ?case by simp
qed

lemma initialState_covers:
  "\<forall>m. GetNode (Graph (initialState gid g inputs now)) m \<noteq> NilNode
        \<longrightarrow> NodeStates (initialState gid g inputs now) m \<noteq> None"
  by (auto dest: GetNode_in_Nodes)

text \<open>
  The entry dispatch of a valid graph whose submitted event went out: if it returns,
  \<^verbatim>\<open>SubmitGraph\<close> returns the id, whatever the error, and the store has the record the
  dispatch left.
\<close>

lemma SubmitGraph_dispatched:
  assumes "Validate (Some g) = None" "\<not> bus_rejects w TopicGraphEvents (submitted_event w g)"
    "publishNodeWork (tracked w g inputs) (next_uuid w) (EntryNode g)
       (initialState (next_uuid w) g inputs (clock w)) = Some (err, st', w')"
  shows "SubmitGraph w g inputs = Some (Inr (next_uuid w), w')"
    and "states w' (next_uuid w) = Some st'"
proof -
  from publishNodeWork_no_panic [OF assms(3) initialState_covers]
  have "panic_of err = None" by simp
  with assms show "SubmitGraph w g inputs = Some (Inr (next_uuid w), w')"
    by (simp add: SubmitGraph_accepted)
  from publishNodeWork_states [OF assms(3)] show "states w' (next_uuid w) = Some st'"
    by auto
qed

text \<open>
  Claim C3, as the code has it. The claim asks that \<^verbatim>\<open>SubmitGraph\<close> return the id
  whichever publish fails after the record is saved. For a valid graph: when the bus
  rejects the submitted event, \<^verbatim>\<open>SubmitGraph\<close> returns that error and no id; the record
  stays in the store as saved (running, every node pending), with no tracker entry, no
  deadline context and nothing published. When the bus accepts it and the entry dispatch
  returns, \<^verbatim>\<open>SubmitGraph\<close> returns the id whatever the dispatch returned; an error of the
  dispatch is a rejected work envelope or a node that is not in the graph, and then the
  stored record is running.
\<close>

theorem C3_submit_publish_failures:
  assumes "Validate (Some g) = None"
  shows "(bus_rejects w TopicGraphEvents (submitted_event w g) \<longrightarrow>
            (\<exists>w'. SubmitGraph w g inputs = Some (Inl PublishRejected, w')
                 \<and> states w' = (states w)(next_uuid w \<mapsto>
                                   initialState (next_uuid w) g inputs (clock w))
                 \<and> executions w' = executions w \<and> contexts w' = contexts w
                 \<and> published w' = published w))
       \<and> (\<not> bus_rejects w TopicGraphEvents (submitted_event w g) \<longrightarrow>
          dispatchEnds k g (EntryNode g) \<longrightarrow>
            (\<exists>err st' w'.
                 publishNodeWork (tracked w g inputs) (next_uuid w) (EntryNode g)
                   (initialState (next_uuid w) g inputs (clock w)) = Some (err, st', w')
                 \<and> SubmitGraph w g inputs = Some (Inr (next_uuid w), w')
                 \<and> states w' (next_uuid w) = Some st'
                 \<and> (err \<noteq> None \<longrightarrow>
                      (err = Some (PublishWorkFailed PublishRejected)
                       \<or> (\<exists>m. err = Some (NodeNotFound m)))
                      \<and> Status st' = ExecutionStatusRunning)))"
proof (intro conjI impI)
  assume rej: "bus_rejects w TopicGraphEvents (submitted_event w g)"
  show "\<exists>w'. SubmitGraph w g inputs = Some (Inl PublishRejected, w')
          \<and> states w' = (states w)(next_uuid w \<mapsto> initialState (next_uuid w) g inputs (clock w))
          \<and> executions w' = executions w \<and> contexts w' = contexts w
          \<and> published w' = published w"
    using rej by (simp add: SubmitGraph_rejected [OF assms rej] submitted_event_def)
next
  assume acc: "\<not> bus_rejects w TopicGraphEvents (submitted_event w g)"
    and ends: "dispatchEnds k g (EntryNode g)"
  let ?st0 = "initialState (next_uuid w) g inputs (clock w)"
  from ends have "dispatchEnds k (Graph ?st0) (EntryNode g)" by simp
  from publishNodeWork_returns [OF this, of "tracked w g inputs" "next_uuid w"]
  obtain err st' w' where
    run: "publishNodeWork (tracked w g inputs) (next_uuid w) (EntryNode g) ?st0 = Some (err, st', w')"
    by (metis prod_cases3)
  note sub = SubmitGraph_dispatched [OF assms acc run]
  have "err \<noteq> None \<longrightarrow>
          (err = Some (PublishWorkFailed PublishRejected) \<or> (\<exists>m. err = Some (NodeNotFound m)))
          \<and> Status st' = ExecutionStatusRunning"
  proof
    assume e: "err \<noteq> None"
    from publishNodeWork_no_panic [OF run initialState_covers]
    have "panic_of err = None" by simp
    with publishNodeWork_errors [OF run] e
    have 1: "err = Some (PublishWorkFailed PublishRejected) \<or> (\<exists>m. err = Some (NodeNotFound m))"
      by (auto simp: panic_of_def)
    from publishNodeWork_status [OF run] e have "Status st' = ExecutionStatusRunning" by simp
    with 1 show "(err = Some (PublishWorkFailed PublishRejected) \<or> (\<exists>m. err = Some (NodeNotFound m)))
          \<and> Status st' = ExecutionStatusRunning" ..
  qed
  with run sub
  show "\<exists>err st' w'.
          publishNodeWork (tracked w g inputs) (next_uuid w) (EntryNode g) ?st0 = Some (err, st', w')
          \<and> SubmitGraph w g inputs = Some (Inr (next_uuid w), w')
          \<and> states w' (next_uuid w) = Some st'
          \<and> (err \<noteq> None \<longrightarrow>
               (err = Some (PublishWorkFailed PublishRejected) \<or> (\<exists>m. err = Some (NodeNotFound m)))
               \<and> Status st' = ExecutionStatusRunning)"
    by blast
qed

text \<open>
  The line \<open>A\<close>, \<open>B\<close>, \<open>C\<close> on a bus that rejects work: the dispatch goes through the start
  node, the work envelope of \<open>B\<close> is rejected, and the id comes back with the record
  running.
\<close>

theorem C3_submit_publish_failures_witness:
  "Validate (Some g_linear) = None
   \<and> \<not> bus_rejects w_no_work TopicGraphEvents (submitted_event w_no_work g_linear)
   \<and> dispatchEnds 1 g_linear (EntryNode g_linear)
   \<and> map_option fst (SubmitGraph w_no_work g_linear Map.empty) = Some (Inr 0)
   \<and> record_status (after_submit w_no_work g_linear) 0 = Some ExecutionStatusRunning
   \<and> new_topics w_no_work (after_submit w_no_work g_linear) = [TopicGraphEvents]"
proof -
  have v: "Validate (Some g_linear) = None" by (simp add: run_defs)
  have a: "\<not> bus_rejects w_no_work TopicGraphEvents (submitted_event w_no_work g_linear)"
    by (simp add: run_defs submitted_event_def)
  have d: "dispatchEnds 1 g_linear (EntryNode g_linear)"
    by (simp add: g_linear_def GetNode_def findNextNode_def GetOutgoingEdges_def)
  from C3_submit_publish_failures [OF v, of w_no_work Map.empty 1] a d
  have "map_option fst (SubmitGraph w_no_work g_linear Map.empty) = Some (Inr (next_uuid w_no_work))"
    by auto
  moreover have "record_status (after_submit w_no_work g_linear) 0 = Some ExecutionStatusRunning"
    "new_topics w_no_work (after_submit w_no_work g_linear) = [TopicGraphEvents]"
    by (simp_all add: run_defs)
  ultimately show ?thesis using v a d by (simp add: w_no_work_def w_init_def)
qed

text \<open>
  The claim as it is worded fails on a bus that rejects the submitted event:
  \<^verbatim>\<open>SubmitGraph\<close> returns the error. The record is in the store, running, and no deadline
  context has been made for it.
\<close>

theorem C3_submit_returns_error_counterexample:
  "map_option fst (SubmitGraph w_rejecting g_single Map.empty) = Some (Inl PublishRejected)
   \<and> record_status (after_submit w_rejecting g_single) 0 = Some ExecutionStatusRunning
   \<and> contexts (after_submit w_rejecting g_single) 0 = None
   \<and> executions (after_submit w_rejecting g_single) 0 = None"
  by (simp add: run_defs)

section \<open>Records stay, ids do not come back\<close>

lemma evolves_reachable: "evolves w w' \<Longrightarrow> reachable w \<Longrightarrow> reachable w'"
proof (induction rule: evolves.induct)
  case (same w)
  then show ?case .
next
  case (submit w w1 g inputs r w2)
  from submit(3) [OF submit(4)] submit(2) show ?case by (rule reachable.submit)
next
  case (completed w w1 ev r w2)
  from completed(3) [OF completed(4)] completed(2) show ?case by (rule reachable.completed)
next
  case (cancel w w1 gid)
  from cancel(2) [OF cancel(3)] show ?case by (rule reachable.cancel)
next
  case (expire w w1 gid)
  from expire(2) [OF expire(3)] show ?case by (rule reachable.expire)
next
  case (timeout w w1 gid)
  from timeout(2) [OF timeout(3)] show ?case by (rule reachable.timeout)
next
  case (environment w w1 b t)
  from environment(2) [OF environment(3)] show ?case by (rule reachable.environment)
qed

lemma SubmitGraph_keeps_record:
  assumes "world_inv w" "SubmitGraph w g inputs = Some (r, w')" "states w k \<noteq> None"
  shows "states w' k \<noteq> None"
proof -
  from world_inv_fresh_key [OF assms(1)] assms(3) have "k \<noteq> next_uuid w" by auto
  from SubmitGraph_other_key [OF assms(2) this] assms(3) show ?thesis by simp
qed

lemma CancelExecution_keeps_record:
  assumes "world_inv w" "states w k \<noteq> None"
  shows "states (snd (CancelExecution w gid)) k \<noteq> None"
proof (cases "k = gid")
  case False
  with CancelExecution_other_key [OF assms(1), of k gid] assms(2) show ?thesis by simp
next
  case True
  show ?thesis
  proof (cases "executions w gid")
    case None
    with assms(2) show ?thesis by (simp add: CancelExecution_untracked)
  next
    case (Some ec)
    with assms(1) obtain st where st: "status ec = ExecutionStatusRunning" "states w gid = Some st"
      unfolding world_inv_def by blast
    with assms(1) have "GraphID st = gid" by (simp add: world_inv_def record_ok_def)
    with CancelExecution_running(2) [OF Some st] True show ?thesis by simp
  qed
qed

lemma monitorExecution_keeps_record:
  assumes "world_inv w" "states w k \<noteq> None"
  shows "states (monitorExecution w gid) k \<noteq> None"
proof (cases "k = gid")
  case False
  with monitorExecution_other_key [OF assms(1), of k gid] assms(2) show ?thesis by simp
next
  case True
  from assms(2) True obtain st where "states w gid = Some st" by blast
  from monitorExecution_own_record [OF assms(1) this] True show ?thesis by simp
qed

text \<open>No operation removes a record.\<close>

lemma evolves_keeps_record:
  "evolves w w' \<Longrightarrow> reachable w \<Longrightarrow> states w k \<noteq> None \<Longrightarrow> states w' k \<noteq> None"
proof (induction rule: evolves.induct)
  case (same w)
  then show ?case by simp
next
  case (submit w w1 g inputs r w2)
  from evolves_reachable [OF submit(1,4)] have "world_inv w1" by (rule reachable_world_inv)
  from SubmitGraph_keeps_record [OF this submit(2)] submit(3,4,5) show ?case by simp
next
  case (completed w w1 ev r w2)
  from evolves_reachable [OF completed(1,4)] have inv: "world_inv w1" by (rule reachable_world_inv)
  from completed(3,4,5) obtain st0 where "states w1 k = Some st0" by blast
  from handleNodeCompleted_record [OF inv completed(2) this]
  obtain st' where "states w2 k = Some st'" by blast
  then show ?case by simp
next
  case (cancel w w1 gid)
  from evolves_reachable [OF cancel(1,3)] have "world_inv w1" by (rule reachable_world_inv)
  from CancelExecution_keeps_record [OF this] cancel(2,3,4) show ?case by simp
next
  case (expire w w1 gid)
  then show ?case by simp
next
  case (timeout w w1 gid)
  from evolves_reachable [OF timeout(1,3)] have "world_inv w1" by (rule reachable_world_inv)
  from monitorExecution_keeps_record [OF this] timeout(2,3,4) show ?case by simp
next
  case (environment w w1 b t)
  then show ?case by simp
qed

text \<open>The id that \<^verbatim>\<open>SubmitGraph\<close> returns is the one it minted.\<close>

lemma SubmitGraph_returns_minted:
  assumes "SubmitGraph w g inputs = Some (Inr a, w')"
  shows "a = next_uuid w"
proof (cases "Validate (Some g)")
  case (Some err)
  with assms show ?thesis by (simp add: SubmitGraph_invalid)
next
  case None
  show ?thesis
  proof (cases "bus_rejects w TopicGraphEvents (submitted_event w g)")
    case True
    with None assms show ?thesis by (simp add: SubmitGraph_rejected)
  next
    case False
    with None assms show ?thesis
      by (auto simp: SubmitGraph_accepted split: option.splits)
  qed
qed

text \<open>An id under which there is a record is never returned again.\<close>

lemma later_ids_differ:
  assumes "reachable w'" "states w' a \<noteq> None" "evolves w' w2"
    "SubmitGraph w2 g2 inputs2 = Some (Inr b, w3)"
  shows "b \<noteq> a"
proof
  assume "b = a"
  with SubmitGraph_returns_minted [OF assms(4)] have a: "a = next_uuid w2" by simp
  from evolves_reachable [OF assms(3,1)] have "states w2 (next_uuid w2) = None"
    by (intro world_inv_fresh_key reachable_world_inv)
  with evolves_keeps_record [OF assms(3,1,2)] a show False by simp
qed

section \<open>What a dispatch that returns has done, exactly\<close>

lemma running_idem [simp]: "running t (running t ns) = running t ns"
  by (simp add: running_def)

lemma setRunning_NodeStates:
  "NodeStates (setRunning st n ns t) = (NodeStates st)(n \<mapsto> running t ns)"
  by (simp add: running_def)

lemma dispatched_nil_not_end: "dispatched k g n = [] \<Longrightarrow> \<not> endsAtEnd k g n"
  by (simp add: endsAtEnd_def)

lemma publishNodeWork_exact:
  assumes "dispatchEnds k (Graph st) n"
    and "\<forall>m. GetNode (Graph st) m \<noteq> NilNode \<longrightarrow> NodeStates st m \<noteq> None"
    and "publishNodeWork w gid n st = Some r"
  shows "(\<forall>m. NodeStates (fst (snd r)) m =
              (if m \<in> set (dispatched k (Graph st) n)
               then map_option (running (clock w)) (NodeStates st m) else NodeStates st m))
         \<and> Status (fst (snd r)) =
             (if endsAtEnd k (Graph st) n then ExecutionStatusCompleted else Status st)"
  using assms
proof (induction k arbitrary: w st n r)
  case 0
  show ?case
  proof (cases "GetNode (Graph st) n")
    case NilNode
    with 0 show ?thesis by (auto simp: pnw_nil endsAtEnd_def)
  next
    case (Node t v)
    with 0(2) obtain ns where ns: "NodeStates st n = Some ns" by fastforce
    from 0(1,3) Node ns show ?thesis
      by (cases t)
         (auto simp: pnw_start pnw_executor pnw_router pnw_end endsAtEnd_def completeGraph_fst
            running_def)
  qed
next
  case (Suc k)
  show ?case
  proof (cases "GetNode (Graph st) n")
    case NilNode
    with Suc(4) show ?thesis by (auto simp: pnw_nil endsAtEnd_def)
  next
    case (Node t v)
    with Suc(3) obtain ns where ns: "NodeStates st n = Some ns" by fastforce
    show ?thesis
    proof (cases "t = NodeTypeStart \<and> findNextNode (Graph st) n \<noteq> []")
      case False
      with Suc(4) Node ns show ?thesis
        by (cases t)
           (auto simp: pnw_start pnw_executor pnw_router pnw_end endsAtEnd_def completeGraph_fst
              running_def)
    next
      case True
      let ?st1 = "setRunning st n ns (clock w)"
      let ?w1 = "snd (SaveState w ?st1)"
      let ?nx = "findNextNode (Graph st) n"
      from True Node ns Suc(4) have run: "publishNodeWork ?w1 gid ?nx ?st1 = Some r"
        by (simp add: pnw_start)
      from Suc(2) True Node have e: "dispatchEnds k (Graph ?st1) ?nx" by simp
      from Suc(3) have c: "\<forall>m. GetNode (Graph ?st1) m \<noteq> NilNode \<longrightarrow> NodeStates ?st1 m \<noteq> None"
        by simp
      from Suc.IH [OF e c run]
      have IH: "\<forall>m. NodeStates (fst (snd r)) m =
                  (if m \<in> set (dispatched k (Graph st) ?nx)
                   then map_option (running (clock w)) (NodeStates ?st1 m) else NodeStates ?st1 m)"
        "Status (fst (snd r)) =
           (if endsAtEnd k (Graph st) ?nx then ExecutionStatusCompleted else Status st)"
        by simp_all
      have d: "dispatched (Suc k) (Graph st) n = n # dispatched k (Graph st) ?nx"
        using True Node by simp
      have 1: "\<forall>m. NodeStates (fst (snd r)) m =
              (if m \<in> set (dispatched (Suc k) (Graph st) n)
               then map_option (running (clock w)) (NodeStates st m) else NodeStates st m)"
        using IH(1) ns unfolding d by (auto simp: running_def)
      have 2: "endsAtEnd (Suc k) (Graph st) n = endsAtEnd k (Graph st) ?nx"
      proof (cases "dispatched k (Graph st) ?nx")
        case Nil
        with d True Node show ?thesis by (simp add: endsAtEnd_def)
      next
        case (Cons x xs)
        with d show ?thesis by (simp add: endsAtEnd_def)
      qed
      from 1 2 IH(2) show ?thesis by simp
    qed
  qed
qed

text \<open>A dispatch that enters the cycle of \<open>g_cycle\<close> does not return.\<close>

lemma publishNodeWork_cycle:
  assumes "publishNodeWork w gid n st = Some r"
  shows "\<not> (Graph st = g_cycle \<and> (n = ''A'' \<or> n = ''B'')
            \<and> NodeStates st ''A'' \<noteq> None \<and> NodeStates st ''B'' \<noteq> None)"
  using assms
proof (induction rule: publishNodeWork_induct)
  case (stop w n st r)
  then show ?case
    by (auto simp: recurses_def g_cycle_def GetNode_def findNextNode_def GetOutgoingEdges_def)
next
  case (step w n st v ns r)
  then show ?case
    by (auto simp: g_cycle_def GetNode_def findNextNode_def GetOutgoingEdges_def split: if_splits)
qed

section \<open>What a submission leaves in the store\<close>

text \<open>
  Claim C6, as the code has it. The claim asks that the record loaded after
  \<^verbatim>\<open>SubmitGraph\<close> be running with every node pending. \<^verbatim>\<open>SubmitGraph\<close> dispatches the entry
  node before it returns, and the dispatch writes the record. For a valid graph whose
  submitted event the bus accepts and whose entry dispatch ends, in any reachable world:
  \<^verbatim>\<open>SubmitGraph\<close> returns the id it minted, under which the store had no record and
  which no later submission returns again; the record that \<^verbatim>\<open>GetStatus\<close> loads under it
  carries the id, the graph, the inputs and the submission time; it has a state for every node of the graph
  and for nothing else; the nodes the entry dispatch went through are running, started
  at the submission time, and every other node is pending; and the record is running,
  unless the dispatch ended at an end node, when it is completed.
\<close>

theorem C6_submit_persists_record:
  assumes "reachable w" "Validate (Some g) = None"
    "\<not> bus_rejects w TopicGraphEvents (submitted_event w g)"
    "dispatchEnds k g (EntryNode g)"
  shows "\<exists>st' w'. SubmitGraph w g inputs = Some (Inr (next_uuid w), w')
           \<and> states w (next_uuid w) = None \<and> next_uuid w < next_uuid w'
           \<and> (\<forall>w2 g2 inputs2 b w3.
                 evolves w' w2 \<longrightarrow> SubmitGraph w2 g2 inputs2 = Some (Inr b, w3) \<longrightarrow> b \<noteq> next_uuid w)
           \<and> GetStatus w' (next_uuid w) = Inr st'
           \<and> GraphID st' = next_uuid w \<and> Graph st' = g \<and> Inputs st' = inputs
           \<and> SubmittedAt st' = clock w
           \<and> Status st' = (if endsAtEnd k g (EntryNode g) then ExecutionStatusCompleted
                            else ExecutionStatusRunning)
           \<and> (\<forall>n. NodeStates st' n =
                 (if n \<in> fst ` set (Nodes g)
                  then Some (if n \<in> set (dispatched k g (EntryNode g))
                             then running (clock w) (pending n) else pending n)
                  else None))"
proof -
  let ?st0 = "initialState (next_uuid w) g inputs (clock w)"
  from assms(4) have e: "dispatchEnds k (Graph ?st0) (EntryNode g)" by simp
  from publishNodeWork_returns [OF e, of "tracked w g inputs" "next_uuid w"]
  obtain err st' w' where
    run: "publishNodeWork (tracked w g inputs) (next_uuid w) (EntryNode g) ?st0 = Some (err, st', w')"
    by (metis prod_cases3)
  note sub = SubmitGraph_dispatched [OF assms(2,3) run]
  from assms(1) have fresh: "states w (next_uuid w) = None"
    by (intro world_inv_fresh_key reachable_world_inv)
  from publishNodeWork_frame [OF run] have later: "next_uuid w < next_uuid w'" by simp
  from publishNodeWork_fields [OF run]
  have f: "GraphID st' = next_uuid w" "Graph st' = g" "Inputs st' = inputs"
    "SubmittedAt st' = clock w"
    by simp_all
  from publishNodeWork_exact [OF e initialState_covers run]
  have x: "\<forall>m. NodeStates st' m =
              (if m \<in> set (dispatched k g (EntryNode g))
               then map_option (running (clock w)) (NodeStates ?st0 m) else NodeStates ?st0 m)"
    "Status st' = (if endsAtEnd k g (EntryNode g) then ExecutionStatusCompleted
                   else ExecutionStatusRunning)"
    by simp_all
  have n: "\<forall>n. NodeStates st' n =
                 (if n \<in> fst ` set (Nodes g)
                  then Some (if n \<in> set (dispatched k g (EntryNode g))
                             then running (clock w) (pending n) else pending n)
                  else None)"
    using x(1) by (simp add: pending_def)
  from assms(1) sub(1) have r': "reachable w'" by (rule reachable.submit)
  from sub(2) have here: "states w' (next_uuid w) \<noteq> None" by simp
  have differ: "\<forall>w2 g2 inputs2 b w3.
      evolves w' w2 \<longrightarrow> SubmitGraph w2 g2 inputs2 = Some (Inr b, w3) \<longrightarrow> b \<noteq> next_uuid w"
    using later_ids_differ [OF r' here] by blast
  from sub(2) have load: "GetStatus w' (next_uuid w) = Inr st'"
    by (simp add: GetStatus_def GetState_def)
  from sub(1) fresh later differ load f x(2) n show ?thesis by blast
qed

text \<open>
  The line \<open>A\<close>, \<open>B\<close>, \<open>C\<close> submitted to a fresh manager: the dispatch goes through the
  start node \<open>A\<close> to the executor \<open>B\<close>; both are running, \<open>C\<close> is pending, the record is
  running.
\<close>

theorem C6_submit_persists_record_witness:
  "Validate (Some g_linear) = None
   \<and> \<not> bus_rejects w_init TopicGraphEvents (submitted_event w_init g_linear)
   \<and> dispatchEnds 1 g_linear (EntryNode g_linear)
   \<and> map_option fst (SubmitGraph w_init g_linear Map.empty) = Some (Inr 0)
   \<and> record_status (after_submit w_init g_linear) 0 = Some ExecutionStatusRunning
   \<and> node_status (after_submit w_init g_linear) 0 ''A'' = Some ExecutionStatusRunning
   \<and> node_status (after_submit w_init g_linear) 0 ''B'' = Some ExecutionStatusRunning
   \<and> node_status (after_submit w_init g_linear) 0 ''C'' = Some ExecutionStatusPending"
proof -
  have v: "Validate (Some g_linear) = None" by (simp add: run_defs)
  have a: "\<not> bus_rejects w_init TopicGraphEvents (submitted_event w_init g_linear)"
    by (simp add: w_init_def)
  have d: "dispatchEnds 1 g_linear (EntryNode g_linear)"
    by (simp add: g_linear_def GetNode_def findNextNode_def GetOutgoingEdges_def)
  from C6_submit_persists_record [OF w_init_reachable v a d, of Map.empty]
  obtain st' w' where s: "SubmitGraph w_init g_linear Map.empty = Some (Inr (next_uuid w_init), w')"
    "GetStatus w' (next_uuid w_init) = Inr st'"
    "Status st' = (if endsAtEnd 1 g_linear (EntryNode g_linear) then ExecutionStatusCompleted
                   else ExecutionStatusRunning)"
    "\<forall>n. NodeStates st' n =
          (if n \<in> fst ` set (Nodes g_linear)
           then Some (if n \<in> set (dispatched 1 g_linear (EntryNode g_linear))
                      then running (clock w_init) (pending n) else pending n)
           else None)"
    by blast
  have w': "after_submit w_init g_linear = w'" by (simp add: after_submit_def s(1))
  have z: "next_uuid w_init = 0" by (simp add: w_init_def)
  have dd: "dispatched 1 g_linear (EntryNode g_linear) = [''A'', ''B'']"
    "\<not> endsAtEnd 1 g_linear (EntryNode g_linear)"
    by (simp_all add: endsAtEnd_def g_linear_def GetNode_def findNextNode_def GetOutgoingEdges_def)
  have "record_status w' 0 = Some ExecutionStatusRunning"
    "node_status w' 0 ''A'' = Some ExecutionStatusRunning"
    "node_status w' 0 ''B'' = Some ExecutionStatusRunning"
    "node_status w' 0 ''C'' = Some ExecutionStatusPending"
    using s(2,3,4) dd z
    by (simp_all add: record_status_def node_status_def running_def pending_def g_linear_def
        GetStatus_def GetState_def split: option.splits)
  with v a d s(1) w' z show ?thesis by simp
qed

text \<open>
  The claim as it is worded fails. On \<open>g_single\<close> the entry node is running, not pending,
  when \<^verbatim>\<open>SubmitGraph\<close> has returned; on \<open>g_end\<close> the record is completed, not running; on
  \<open>g_cycle\<close>, which the validator accepts, \<^verbatim>\<open>SubmitGraph\<close> does not return.
\<close>

theorem C6_submit_all_pending_counterexample:
  "map_option fst (SubmitGraph w_init g_single Map.empty) = Some (Inr 0)
   \<and> node_status (after_submit w_init g_single) 0 ''B'' = Some ExecutionStatusRunning
   \<and> map_option fst (SubmitGraph w_init g_end Map.empty) = Some (Inr 0)
   \<and> record_status (after_submit w_init g_end) 0 = Some ExecutionStatusCompleted
   \<and> Validate (Some g_cycle) = None
   \<and> SubmitGraph w_init g_cycle Map.empty = None"
proof -
  have v: "Validate (Some g_cycle) = None" by (simp add: Validate_def g_cycle_def validateNode_def)
  have a: "\<not> bus_rejects w_init TopicGraphEvents (submitted_event w_init g_cycle)"
    by (simp add: w_init_def)
  have "publishNodeWork (tracked w_init g_cycle Map.empty) (next_uuid w_init) (EntryNode g_cycle)
          (initialState (next_uuid w_init) g_cycle Map.empty (clock w_init)) = None"
  proof (rule ccontr)
    assume "publishNodeWork (tracked w_init g_cycle Map.empty) (next_uuid w_init)
              (EntryNode g_cycle)
              (initialState (next_uuid w_init) g_cycle Map.empty (clock w_init)) \<noteq> None"
    then obtain r where "publishNodeWork (tracked w_init g_cycle Map.empty) (next_uuid w_init)
              (EntryNode g_cycle)
              (initialState (next_uuid w_init) g_cycle Map.empty (clock w_init)) = Some r"
      by blast
    from publishNodeWork_cycle [OF this] show False by (simp add: g_cycle_def)
  qed
  then have "SubmitGraph w_init g_cycle Map.empty = None"
    by (simp add: SubmitGraph_accepted [OF v a])
  moreover have "map_option fst (SubmitGraph w_init g_single Map.empty) = Some (Inr 0)"
    "node_status (after_submit w_init g_single) 0 ''B'' = Some ExecutionStatusRunning"
    "map_option fst (SubmitGraph w_init g_end Map.empty) = Some (Inr 0)"
    "record_status (after_submit w_init g_end) 0 = Some ExecutionStatusCompleted"
    by (simp_all add: run_defs)
  ultimately show ?thesis using v by simp
qed

section \<open>What the validator accepts\<close>

lemma validateNodes_None_iff:
  "validateNodes ns nodeIDs = None \<longleftrightarrow>
     list_all (\<lambda>(nodeID, n). validateNode nodeID n = None) ns \<and> distinct (map fst ns)
     \<and> (\<forall>i\<in>fst ` set ns. \<not> nodeIDs i)"
proof (induction ns arbitrary: nodeIDs)
  case Nil
  show ?case by simp
next
  case (Cons x ns)
  obtain i n where x: "x = (i, n)" by (cases x)
  show ?case unfolding x by (auto simp: Cons.IH split: option.splits)
qed

lemma validateEdges_None_iff:
  "validateEdges es ns = None \<longleftrightarrow>
     list_all (\<lambda>e. From e \<in> fst ` set ns \<and> To e \<in> fst ` set ns) es"
  by (induction es) (auto simp: map_of_eq_None_iff)

text \<open>The validator accepts exactly the graphs that are in order and whose entry node, if
  there is one, is a node.\<close>

lemma Validate_None_iff:
  "Validate (Some g) = None \<longleftrightarrow>
     otherwise_valid g \<and> (EntryNode g = [] \<or> EntryNode g \<in> fst ` set (Nodes g))"
proof (cases "validateNodes (Nodes g) (\<lambda>_. False)")
  case None
  then have "list_all (\<lambda>(nodeID, n). validateNode nodeID n = None) (Nodes g)
             \<and> distinct (map fst (Nodes g))"
    by (simp add: validateNodes_None_iff)
  with None show ?thesis
    by (auto simp: Validate_def otherwise_valid_def validateEdges_None_iff map_of_eq_None_iff)
next
  case (Some err)
  then have "\<not> (list_all (\<lambda>(nodeID, n). validateNode nodeID n = None) (Nodes g)
                \<and> distinct (map fst (Nodes g)))"
    using validateNodes_None_iff [of "Nodes g" "\<lambda>_. False"] by simp
  with Some show ?thesis
    by (auto simp: Validate_def otherwise_valid_def)
qed

lemma valid_node_ids: "Validate (Some g) = None \<Longrightarrow> [] \<notin> fst ` set (Nodes g)"
  by (auto simp: Validate_None_iff otherwise_valid_def list_all_iff validateNode_def
      split: if_splits)

lemma valid_no_empty_node: "Validate (Some g) = None \<Longrightarrow> GetNode g [] = NilNode"
  using valid_node_ids [of g] GetNode_in_Nodes [of g "[]"] by blast

lemma valid_edge_target:
  assumes "Validate (Some g) = None" "e \<in> set (Edges g)"
  shows "To e \<noteq> []"
proof
  assume "To e = []"
  moreover from assms have "To e \<in> fst ` set (Nodes g)"
    by (simp add: Validate_None_iff otherwise_valid_def list_all_iff)
  ultimately have "[] \<in> fst ` set (Nodes g)" by simp
  with valid_node_ids [OF assms(1)] show False ..
qed

section \<open>A graph without entry node\<close>

text \<open>
  Claim C10, as the code has it. The claim asks that the submission of a graph that is in
  order but for its entry node, which is the empty string, succeed. The validator accepts
  such a graph, and a dispatch of the empty id finds no node and returns the
  node-not-found error. What \<^verbatim>\<open>SubmitGraph\<close> returns depends on the bus:
  \<^item> when the bus rejects the submitted event, it returns that error: the initial record
    is in the store, running, and nothing is published, no tracker entry and no deadline
    context is made;
  \<^item> when the bus accepts it, it returns the minted id, the error of the entry dispatch
    being dropped: nothing but the submitted event has been published, the stored record
    is the initial one, running with every node pending, and its deadline context is
    active; when the deadline elapses, at whatever time, the monitor drives the record
    to failed with the error \<open>execution timeout\<close>.
\<close>

theorem C10_empty_entry_node:
  assumes "otherwise_valid g" "EntryNode g = []"
  shows "Validate (Some g) = None
       \<and> Status (initialState (next_uuid w) g inputs (clock w)) = ExecutionStatusRunning
       \<and> (\<forall>n ns. NodeStates (initialState (next_uuid w) g inputs (clock w)) n = Some ns
                   \<longrightarrow> NodeStatus ns = ExecutionStatusPending)
       \<and> publishNodeWork (tracked w g inputs) (next_uuid w) (EntryNode g)
           (initialState (next_uuid w) g inputs (clock w))
         = Some (Some (NodeNotFound []), initialState (next_uuid w) g inputs (clock w),
                 tracked w g inputs)
       \<and> (bus_rejects w TopicGraphEvents (submitted_event w g) \<longrightarrow>
            (\<exists>w'. SubmitGraph w g inputs = Some (Inl PublishRejected, w')
                \<and> states w' (next_uuid w) = Some (initialState (next_uuid w) g inputs (clock w))
                \<and> published w' = published w
                \<and> executions w' = executions w
                \<and> contexts w' = contexts w))
       \<and> (\<not> bus_rejects w TopicGraphEvents (submitted_event w g) \<longrightarrow>
            SubmitGraph w g inputs = Some (Inr (next_uuid w), tracked w g inputs)
            \<and> published (tracked w g inputs)
                = published w @ [(TopicGraphEvents, submitted_event w g)]
            \<and> states (tracked w g inputs) (next_uuid w)
                = Some (initialState (next_uuid w) g inputs (clock w))
            \<and> contexts (tracked w g inputs) (next_uuid w) = Some CtxActive
            \<and> monitorExecution (tracked w g inputs) (next_uuid w) = tracked w g inputs
            \<and> contexts (expireDeadline ((tracked w g inputs)\<lparr>clock := t\<rparr>) (next_uuid w))
                (next_uuid w) = Some CtxDeadlineExceeded
            \<and> states (monitorExecution
                        (expireDeadline ((tracked w g inputs)\<lparr>clock := t\<rparr>) (next_uuid w))
                        (next_uuid w)) (next_uuid w)
                = Some ((initialState (next_uuid w) g inputs (clock w))
                          \<lparr>Status := ExecutionStatusFailed, CompletedAt := Some t,
                           Error := ''execution timeout''\<rparr>))"
proof -
  let ?st0 = "initialState (next_uuid w) g inputs (clock w)"
  let ?ev = "submitted_event w g"
  from assms(1,2) have v: "Validate (Some g) = None" by (simp add: Validate_None_iff)
  have pend: "NodeStatus ns = ExecutionStatusPending" if "NodeStates ?st0 n = Some ns" for n ns
    using that by (auto simp: initNodeStates_eq split: if_splits)
  from valid_no_empty_node [OF v] assms(2)
  have run: "publishNodeWork (tracked w g inputs) (next_uuid w) (EntryNode g) ?st0
               = Some (Some (NodeNotFound []), ?st0, tracked w g inputs)"
    by (simp add: pnw_nil)
  have rej: "\<exists>w'. SubmitGraph w g inputs = Some (Inl PublishRejected, w')
                \<and> states w' (next_uuid w) = Some ?st0
                \<and> published w' = published w
                \<and> executions w' = executions w
                \<and> contexts w' = contexts w"
    if r: "bus_rejects w TopicGraphEvents ?ev"
  proof -
    from r have "bus_rejects w TopicGraphEvents
                   (graph_event (Suc (next_uuid w)) (clock w) (next_uuid w) EventTypeGraphSubmitted
                      [''original_graph_id'' \<mapsto> VAny (AStr (ID g))])"
      by (simp add: submitted_event_def)
    with SubmitGraph_rejected [OF v r, of inputs] show ?thesis by simp
  qed
  have acc: "SubmitGraph w g inputs = Some (Inr (next_uuid w), tracked w g inputs)"
    if a: "\<not> bus_rejects w TopicGraphEvents ?ev"
    using SubmitGraph_dispatched(1) [OF v a run] .
  have pub: "published (tracked w g inputs) = published w @ [(TopicGraphEvents, ?ev)]"
    if a: "\<not> bus_rejects w TopicGraphEvents ?ev"
    using a by (simp add: submitted_event_def)
  have idle: "monitorExecution (tracked w g inputs) (next_uuid w) = tracked w g inputs"
    by (simp add: monitorExecution_idle)
  have ex: "contexts (expireDeadline ((tracked w g inputs)\<lparr>clock := t\<rparr>) (next_uuid w))
              (next_uuid w) = Some CtxDeadlineExceeded"
    by (simp add: expireDeadline_def)
  have mon: "states (monitorExecution
                       (expireDeadline ((tracked w g inputs)\<lparr>clock := t\<rparr>) (next_uuid w))
                       (next_uuid w)) (next_uuid w)
           = Some (?st0\<lparr>Status := ExecutionStatusFailed, CompletedAt := Some t,
                        Error := ''execution timeout''\<rparr>)"
    by (simp add: monitorExecution_fires [OF ex] completeGraph_fst)
  have run0: "Status ?st0 = ExecutionStatusRunning" by simp
  from v run0 pend run rej acc pub idle ex mon show ?thesis by (simp (no_asm_simp))
qed

text \<open>
  The line \<open>A\<close>, \<open>B\<close>, \<open>C\<close> without entry node, submitted to a fresh manager whose bus
  accepts everything.
\<close>

theorem C10_empty_entry_node_witness:
  "otherwise_valid g_noentry \<and> EntryNode g_noentry = []
   \<and> \<not> bus_rejects w_init TopicGraphEvents (submitted_event w_init g_noentry)
   \<and> Validate (Some g_noentry) = None
   \<and> map_option fst (SubmitGraph w_init g_noentry Map.empty) = Some (Inr 0)
   \<and> new_topics w_init (after_submit w_init g_noentry) = [TopicGraphEvents]
   \<and> record_status (after_submit w_init g_noentry) 0 = Some ExecutionStatusRunning
   \<and> node_status (after_submit w_init g_noentry) 0 ''A'' = Some ExecutionStatusPending
   \<and> record_status (monitorExecution (after_submit w_init g_noentry) 0) 0
       = Some ExecutionStatusRunning
   \<and> record_status (monitorExecution (expireDeadline (after_submit w_init g_noentry) 0) 0) 0
       = Some ExecutionStatusFailed"
proof -
  have o: "otherwise_valid g_noentry"
    by (simp add: otherwise_valid_def g_noentry_def g_linear_def validateNode_def)
  have e: "EntryNode g_noentry = []" by (simp add: g_noentry_def)
  have a: "\<not> bus_rejects w_init TopicGraphEvents (submitted_event w_init g_noentry)"
    by (simp add: w_init_def)
  from C10_empty_entry_node [OF o e, of w_init Map.empty 7] a
  have "Validate (Some g_noentry) = None"
    "SubmitGraph w_init g_noentry Map.empty
       = Some (Inr (next_uuid w_init), tracked w_init g_noentry Map.empty)"
    by simp_all
  moreover have "new_topics w_init (after_submit w_init g_noentry) = [TopicGraphEvents]"
    "record_status (after_submit w_init g_noentry) 0 = Some ExecutionStatusRunning"
    "node_status (after_submit w_init g_noentry) 0 ''A'' = Some ExecutionStatusPending"
    "record_status (monitorExecution (after_submit w_init g_noentry) 0) 0
       = Some ExecutionStatusRunning"
    "record_status (monitorExecution (expireDeadline (after_submit w_init g_noentry) 0) 0) 0
       = Some ExecutionStatusFailed"
    by (simp_all add: run_defs)
  ultimately show ?thesis using o e a by (simp add: w_init_def)
qed

text \<open>
  The claim as it is worded fails on a bus that rejects the submitted event: the
  submission of the same graph returns the error and no id; the record is in the store,
  running, and there is no deadline to fire on it.
\<close>

theorem C10_empty_entry_rejected_counterexample:
  "otherwise_valid g_noentry \<and> EntryNode g_noentry = []
   \<and> Validate (Some g_noentry) = None
   \<and> map_option fst (SubmitGraph w_rejecting g_noentry Map.empty) = Some (Inl PublishRejected)
   \<and> record_status (after_submit w_rejecting g_noentry) 0 = Some ExecutionStatusRunning
   \<and> contexts (after_submit w_rejecting g_noentry) 0 = None
   \<and> expireDeadline (after_submit w_rejecting g_noentry) 0 = after_submit w_rejecting g_noentry
   \<and> record_status (monitorExecution (expireDeadline (after_submit w_rejecting g_noentry) 0) 0) 0
       = Some ExecutionStatusRunning"
proof -
  have o: "otherwise_valid g_noentry"
    by (simp add: otherwise_valid_def g_noentry_def g_linear_def validateNode_def)
  have c: "contexts (after_submit w_rejecting g_noentry) 0 = None"
    by (simp add: run_defs)
  then have x: "expireDeadline (after_submit w_rejecting g_noentry) 0
                  = after_submit w_rejecting g_noentry"
    by (simp add: expireDeadline_def)
  have r: "record_status (after_submit w_rejecting g_noentry) 0 = Some ExecutionStatusRunning"
    "map_option fst (SubmitGraph w_rejecting g_noentry Map.empty) = Some (Inl PublishRejected)"
    "Validate (Some g_noentry) = None" "EntryNode g_noentry = []"
    by (simp_all add: run_defs)
  from c have "monitorExecution (after_submit w_rejecting g_noentry) 0
                 = after_submit w_rejecting g_noentry"
    by (simp add: monitorExecution_idle)
  with x r(1)
  have m: "record_status (monitorExecution (expireDeadline (after_submit w_rejecting g_noentry) 0) 0) 0
             = Some ExecutionStatusRunning"
    by (simp only:)
  from o c x r m show ?thesis by (simp only: simp_thms)
qed

section \<open>Dispatch of a node\<close>

text \<open>
  Claim C9. The dispatch of an end node that has a state returns without error; the
  record it leaves, in the caller's hands and in the store, is completed, completed now,
  and in it the state of the end node is the state it had, set running and started now:
  its completion time is not written. A completed record holds a running node.
\<close>

theorem C9_end_node_left_running:
  assumes "GetNode (Graph st) n = Node NodeTypeEnd v" "NodeStates st n = Some ns"
  shows "\<exists>st' w'. publishNodeWork w gid n st = Some (None, st', w')
           \<and> states w' (GraphID st) = Some st'
           \<and> Status st' = ExecutionStatusCompleted \<and> CompletedAt st' = Some (clock w)
           \<and> NodeStates st' n
               = Some (ns\<lparr>NodeStatus := ExecutionStatusRunning, NodeStartedAt := Some (clock w)\<rparr>)
           \<and> map_option NodeStatus (NodeStates st' n) = Some ExecutionStatusRunning
           \<and> map_option NodeStartedAt (NodeStates st' n) = Some (Some (clock w))
           \<and> map_option NodeCompletedAt (NodeStates st' n) = Some (NodeCompletedAt ns)"
  using assms by (simp add: pnw_end completeGraph_fst prod_eq_iff)

text \<open>
  The line \<open>A\<close>, \<open>B\<close>, \<open>C\<close>: submitted, then \<open>B\<close> completes with an output. The end node \<open>C\<close>
  is dispatched; the record is completed and \<open>C\<close> is running.
\<close>

theorem C9_end_node_left_running_witness:
  "GetNode g_end ''E'' = Node NodeTypeEnd None
   \<and> record_status (after_dispatch w_init 0 ''E'' (initialState 0 g_end Map.empty 7)) 0
       = Some ExecutionStatusCompleted
   \<and> node_status (after_dispatch w_init 0 ''E'' (initialState 0 g_end Map.empty 7)) 0 ''E''
       = Some ExecutionStatusRunning
   \<and> record_status (after_completed (after_submit w_init g_linear) (completion 0 ''B'' (AStr ''hi''))) 0
       = Some ExecutionStatusCompleted
   \<and> node_status (after_completed (after_submit w_init g_linear) (completion 0 ''B'' (AStr ''hi''))) 0 ''C''
       = Some ExecutionStatusRunning"
proof -
  let ?st = "initialState 0 g_end Map.empty 7"
  have g: "GetNode g_end ''E'' = Node NodeTypeEnd None" by (simp add: GetNode_def g_end_def)
  then have g': "GetNode (Graph ?st) ''E'' = Node NodeTypeEnd None" by simp
  have n: "NodeStates ?st ''E'' = Some (pending ''E'')"
    by (simp add: pending_def g_end_def)
  from C9_end_node_left_running [OF g' n, of w_init 0]
  obtain st' w' where r: "publishNodeWork w_init 0 ''E'' ?st = Some (None, st', w')"
    "states w' (GraphID ?st) = Some st'" "Status st' = ExecutionStatusCompleted"
    "map_option NodeStatus (NodeStates st' ''E'') = Some ExecutionStatusRunning"
    by blast
  have a: "after_dispatch w_init 0 ''E'' ?st = w'" by (simp add: after_dispatch_def r(1))
  from r(2,3,4) have "record_status w' 0 = Some ExecutionStatusCompleted"
    "node_status w' 0 ''E'' = Some ExecutionStatusRunning"
    by (simp_all add: record_status_def node_status_def)
  moreover have
    "record_status (after_completed (after_submit w_init g_linear) (completion 0 ''B'' (AStr ''hi''))) 0
       = Some ExecutionStatusCompleted"
    "node_status (after_completed (after_submit w_init g_linear) (completion 0 ''B'' (AStr ''hi''))) 0 ''C''
       = Some ExecutionStatusRunning"
    by (simp_all add: run_defs)
  ultimately show ?thesis using g a by simp
qed

text \<open>
  Claim C8. The dispatch of a node \<open>n\<close> that is in the graph and has a state: the state
  of \<open>n\<close> is set running, started now, and the record is saved. Then, by the type of the
  node:
  \<^item> an executor or a router: the work event goes to the executor or the router topic;
    its data are the node id, the node type, the execution id as graph id, the inputs
    and the node states as they are now; if the bus rejects it the dispatch returns that
    error with nothing published, else it publishes the node-started event after it and
    returns no error;
  \<^item> an end node: no work event is published; the record is driven to completed at
    once, and of that transition the bus has the completed event on the graph-events
    topic (if it accepts it) and nothing else;
  \<^item> a start node: nothing is published for it; the dispatch goes on with the
    successor that \<^verbatim>\<open>findNextNode\<close> gives, and returns at once if there is none.
\<close>

theorem C8_dispatch_by_node_type:
  assumes "GetNode (Graph st) n = Node t v" "NodeStates st n = Some ns"
    and "st1 = setRunning st n ns (clock w)" and "w1 = snd (SaveState w st1)"
    and "topic = (if t = NodeTypeExecutor then TopicExecutorWork else TopicRouterWork)"
    and "ev = work_event (next_uuid w) (clock w) gid n t st1"
    and "started = graph_event (Suc (next_uuid w)) (clock w) gid EventTypeNodeStarted
                     [''node_id'' \<mapsto> VAny (AStr n)]"
    and "done = graph_event (next_uuid w) (clock w) gid EventTypeGraphCompleted Map.empty"
  shows "NodeStates st1 n
           = Some (ns\<lparr>NodeStatus := ExecutionStatusRunning, NodeStartedAt := Some (clock w)\<rparr>)
       \<and> states w1 (GraphID st) = Some st1 \<and> published w1 = published w
       \<and> ExecutionID ev = gid
       \<and> Data ev = [''node_id'' \<mapsto> VAny (AStr n), ''node_type'' \<mapsto> VNodeType t,
                     ''graph_id'' \<mapsto> VExecID gid, ''state'' \<mapsto> VInputs (Inputs st),
                     ''node_state'' \<mapsto> VNodeStates (NodeStates st1)]
       \<and> (t = NodeTypeExecutor \<or> t = NodeTypeRouter \<longrightarrow>
            (\<exists>w'. publishNodeWork w gid n st
                     = Some (if bus_rejects w topic ev then Some (PublishWorkFailed PublishRejected)
                             else None, st1, w')
                 \<and> states w' = states w1
                 \<and> published w' =
                     published w @
                     (if bus_rejects w topic ev then []
                      else (topic, ev) # (if bus_rejects w TopicGraphEvents started then []
                                          else [(TopicGraphEvents, started)]))))
       \<and> (t = NodeTypeEnd \<longrightarrow>
            (\<exists>w'. publishNodeWork w gid n st
                     = Some (None, st1\<lparr>Status := ExecutionStatusCompleted,
                                        CompletedAt := Some (clock w)\<rparr>, w')
                 \<and> states w' (GraphID st)
                     = Some (st1\<lparr>Status := ExecutionStatusCompleted,
                                 CompletedAt := Some (clock w)\<rparr>)
                 \<and> published w' =
                     published w @
                     (if bus_rejects w TopicGraphEvents done then [] else [(TopicGraphEvents, done)])))
       \<and> (t = NodeTypeStart \<longrightarrow>
            publishNodeWork w gid n st
              = (if findNextNode (Graph st) n \<noteq> []
                 then publishNodeWork w1 gid (findNextNode (Graph st) n) st1
                 else Some (None, st1, w1)))"
proof -
  have 1: "NodeStates st1 n
             = Some (ns\<lparr>NodeStatus := ExecutionStatusRunning, NodeStartedAt := Some (clock w)\<rparr>)"
    "states w1 (GraphID st) = Some st1" "published w1 = published w"
    by (simp_all add: assms(3,4))
  have 2: "ExecutionID ev = gid"
    "Data ev = [''node_id'' \<mapsto> VAny (AStr n), ''node_type'' \<mapsto> VNodeType t,
                ''graph_id'' \<mapsto> VExecID gid, ''state'' \<mapsto> VInputs (Inputs st),
                ''node_state'' \<mapsto> VNodeStates (NodeStates st1)]"
    by (simp_all add: assms(3,6) work_event_def)
  have 3: "\<exists>w'. publishNodeWork w gid n st
                     = Some (if bus_rejects w topic ev then Some (PublishWorkFailed PublishRejected)
                             else None, st1, w')
                 \<and> states w' = states w1
                 \<and> published w' =
                     published w @
                     (if bus_rejects w topic ev then []
                      else (topic, ev) # (if bus_rejects w TopicGraphEvents started then []
                                          else [(TopicGraphEvents, started)]))"
    if "t = NodeTypeExecutor \<or> t = NodeTypeRouter"
    using that assms
    by (auto simp: pnw_executor pnw_router publishWork_published Let_def)
  have 4: "\<exists>w'. publishNodeWork w gid n st
                     = Some (None, st1\<lparr>Status := ExecutionStatusCompleted,
                                        CompletedAt := Some (clock w)\<rparr>, w')
                 \<and> states w' (GraphID st)
                     = Some (st1\<lparr>Status := ExecutionStatusCompleted,
                                 CompletedAt := Some (clock w)\<rparr>)
                 \<and> published w' =
                     published w @
                     (if bus_rejects w TopicGraphEvents done then [] else [(TopicGraphEvents, done)])"
    if "t = NodeTypeEnd"
    using that assms
    by (simp add: pnw_end completeGraph_fst completeGraph_published prod_eq_iff Let_def)
  have 5: "publishNodeWork w gid n st
              = (if findNextNode (Graph st) n \<noteq> []
                 then publishNodeWork w1 gid (findNextNode (Graph st) n) st1
                 else Some (None, st1, w1))"
    if "t = NodeTypeStart"
    using that assms by (simp add: pnw_start)
  from 1 2 3 4 5 show ?thesis by blast
qed

text \<open>
  The router \<open>R\<close> of \<open>g_router\<close>, dispatched on a fresh manager: its work event is on the
  router topic, followed by the node-started event.
\<close>

theorem C8_dispatch_by_node_type_witness:
  "GetNode g_router ''R'' = Node NodeTypeRouter None
   \<and> new_topics w_init (after_dispatch w_init 0 ''R'' (initialState 0 g_router Map.empty 7))
       = [TopicRouterWork, TopicGraphEvents]
   \<and> node_status (after_dispatch w_init 0 ''R'' (initialState 0 g_router Map.empty 7)) 0 ''R''
       = Some ExecutionStatusRunning"
proof -
  let ?st = "initialState 0 g_router Map.empty 7"
  have g: "GetNode g_router ''R'' = Node NodeTypeRouter None"
    by (simp add: GetNode_def g_router_def)
  then have g': "GetNode (Graph ?st) ''R'' = Node NodeTypeRouter None" by simp
  have n: "NodeStates ?st ''R'' = Some (pending ''R'')"
    by (simp add: pending_def g_router_def)
  from C8_dispatch_by_node_type [OF g' n refl refl refl refl refl refl, of w_init 0]
  obtain w' where r: "publishNodeWork w_init 0 ''R'' ?st
        = Some (None, setRunning ?st ''R'' (pending ''R'') (clock w_init), w')"
    "states w' = states (snd (SaveState w_init (setRunning ?st ''R'' (pending ''R'') (clock w_init))))"
    "map fst (drop (length (published w_init)) (published w')) = [TopicRouterWork, TopicGraphEvents]"
    by (auto simp: w_init_def)
  have a: "after_dispatch w_init 0 ''R'' ?st = w'" by (simp add: after_dispatch_def r(1))
  from r(2) have "node_status w' 0 ''R'' = Some ExecutionStatusRunning"
    by (simp add: node_status_def)
  with r(3) g a show ?thesis by (simp add: new_topics_def)
qed

section \<open>Handling a completion event\<close>

text \<open>\<^verbatim>\<open>findNextNode\<close> gives the target of the first edge, in the order of the edges, that
  leaves the node.\<close>

lemma findNextNode_first_edge:
  "findNextNode g n = (case List.find (\<lambda>e. From e = n) (Edges g) of None \<Rightarrow> [] | Some e \<Rightarrow> To e)"
proof -
  have "(case filter P es of [] \<Rightarrow> [] | e # _ \<Rightarrow> To e)
          = (case List.find P es of None \<Rightarrow> [] | Some e \<Rightarrow> To e)" for P and es :: "edge list"
    by (induction es) auto
  then show ?thesis by (simp add: findNextNode_def GetOutgoingEdges_def)
qed

lemma find_in_set: "List.find P xs = Some x \<Longrightarrow> x \<in> set xs"
  by (induction xs) (auto split: if_splits)

text \<open>On a graph that passed the validator, the code's successor is the specification's.\<close>

lemma successor_refines:
  assumes "Validate (Some g) = None"
  shows "(if nx \<noteq> [] then nx else findNextNode g n)
           = (case spec_successor g n nx of None \<Rightarrow> [] | Some s \<Rightarrow> s)"
    and "spec_successor g n nx \<noteq> Some []"
proof -
  show "(if nx \<noteq> [] then nx else findNextNode g n)
           = (case spec_successor g n nx of None \<Rightarrow> [] | Some s \<Rightarrow> s)"
    by (simp add: spec_successor_def findNextNode_first_edge split: option.splits)
  show "spec_successor g n nx \<noteq> Some []"
  proof
    assume a: "spec_successor g n nx = Some []"
    then obtain e where "List.find (\<lambda>e. From e = n) (Edges g) = Some e" "To e = []"
      by (auto simp: spec_successor_def split: if_splits)
    with valid_edge_target [OF assms, of e] show False by (auto dest: find_in_set)
  qed
qed

text \<open>
  Claim C4. A completion event without error, for a stored record and a node that has a
  state, in a reachable world. The handler marks the node completed and saves; then the
  successor is chosen as the specification says: the next node of the event if it is
  not empty, whatever the edges, else the target of the first edge in the order of the
  edges that leaves the completed node. If there is a successor it is dispatched, and
  the handler ends as that dispatch does; if there is none the record is driven to
  completed, and is completed in the store. \<^verbatim>\<open>findNextNode\<close> is that first-edge function.
\<close>

theorem C4_successor_selection:
  assumes "reachable w" "states w (ExecutionID ev) = Some st"
    and "n = fst (as_string (Data ev ''node_id''))" and "NodeStates st n = Some ns"
    and "\<not> snd (as_string (Data ev ''error''))"
    and "nx = fst (as_string (Data ev ''next_node''))"
    and "st1 = setCompleted st n ns (clock w) False (fst (as_string (Data ev ''error'')))
                 (as_any (Data ev ''output''))"
    and "w1 = snd (SaveState w st1)"
  shows "handleNodeCompleted w ev =
           (case spec_successor (Graph st) n nx of
              None \<Rightarrow> Some (None, snd (completeGraph w1 (ExecutionID ev) st1
                                         ExecutionStatusCompleted []))
            | Some s \<Rightarrow> map_option (\<lambda>r. (panic_of (fst r), snd (snd r)))
                         (publishNodeWork w1 (ExecutionID ev) s st1))
       \<and> (spec_successor (Graph st) n nx = None \<longrightarrow>
            (\<exists>w'. handleNodeCompleted w ev = Some (None, w')
                 \<and> record_status w' (ExecutionID ev) = Some ExecutionStatusCompleted))
       \<and> findNextNode (Graph st) n
           = (case List.find (\<lambda>e. From e = n) (Edges (Graph st)) of None \<Rightarrow> [] | Some e \<Rightarrow> To e)"
proof -
  from assms(1,2) have ok: "record_ok w (ExecutionID ev) st"
    using reachable_world_inv by (simp add: world_inv_def)
  then have v: "Validate (Some (Graph st)) = None" and g: "GraphID st = ExecutionID ev"
    by (simp_all add: record_ok_def)
  note eq = handleNodeCompleted_succeeded
    [OF assms(2) assms(4) [unfolded assms(3)] assms(5) assms(7) [unfolded assms(3)] refl]
  note r = successor_refines [OF v, where nx = nx and n = n]
  have 1: "handleNodeCompleted w ev =
           (case spec_successor (Graph st) n nx of
              None \<Rightarrow> Some (None, snd (completeGraph w1 (ExecutionID ev) st1
                                         ExecutionStatusCompleted []))
            | Some s \<Rightarrow> map_option (\<lambda>r. (panic_of (fst r), snd (snd r)))
                         (publishNodeWork w1 (ExecutionID ev) s st1))"
  proof (cases "spec_successor (Graph st) n nx")
    case None
    with r(1) show ?thesis unfolding eq assms(3,6,8) by simp
  next
    case (Some s)
    with r(2) have "s \<noteq> []" by auto
    with Some r(1) show ?thesis unfolding eq assms(3,6,8) by simp
  qed
  have 2: "\<exists>w'. handleNodeCompleted w ev = Some (None, w')
             \<and> record_status w' (ExecutionID ev) = Some ExecutionStatusCompleted"
    if "spec_successor (Graph st) n nx = None"
    using that 1 g by (simp add: record_status_def assms(7,8) completeGraph_fst)
  from 1 2 findNextNode_first_edge show ?thesis by blast
qed

text \<open>
  The router \<open>R\<close> of \<open>g_router\<close> completes and names \<open>Y\<close>: the first edge from \<open>R\<close> goes to
  \<open>X\<close>, and it is \<open>Y\<close> that is set running, with its work on the executor topic.
\<close>

theorem C4_successor_selection_witness:
  "reachable (after_submit w_init g_router)
   \<and> node_status (after_submit w_init g_router) 0 ''R'' = Some ExecutionStatusRunning
   \<and> findNextNode g_router ''R'' = ''X''
   \<and> spec_successor g_router ''R'' ''Y'' = Some ''Y''
   \<and> node_status (after_completed (after_submit w_init g_router) (completion_next 0 ''R'' ''Y'')) 0 ''Y''
       = Some ExecutionStatusRunning
   \<and> node_status (after_completed (after_submit w_init g_router) (completion_next 0 ''R'' ''Y'')) 0 ''X''
       = Some ExecutionStatusPending
   \<and> new_topics (after_submit w_init g_router)
       (after_completed (after_submit w_init g_router) (completion_next 0 ''R'' ''Y''))
       = [TopicExecutorWork, TopicGraphEvents]"
proof -
  let ?w = "after_submit w_init g_router"
  let ?ev = "completion_next 0 ''R'' ''Y''"
  have r: "reachable ?w" by (intro after_submit_reachable w_init_reachable)
  have s: "node_status ?w 0 ''R'' = Some ExecutionStatusRunning" by (simp add: run_defs)
  then obtain st ns where st: "states ?w (ExecutionID ?ev) = Some st" "NodeStates st ''R'' = Some ns"
    by (auto simp: node_status_def completion_next_def split: option.splits)
  have n: "''R'' = fst (as_string (Data ?ev ''node_id''))"
    and e: "\<not> snd (as_string (Data ?ev ''error''))"
    and x: "''Y'' = fst (as_string (Data ?ev ''next_node''))"
    by (simp_all add: completion_next_def as_string_def)
  have y: "spec_successor (Graph st) ''R'' ''Y'' = Some ''Y''" by (simp add: spec_successor_def)
  from C4_successor_selection [OF r st(1) n st(2) e x refl refl]
  have h: "handleNodeCompleted ?w ?ev \<noteq> None \<longrightarrow>
             (\<exists>res. handleNodeCompleted ?w ?ev = Some (panic_of (fst res), snd (snd res)))"
    unfolding y by auto
  have f: "findNextNode g_router ''R'' = ''X''" "spec_successor g_router ''R'' ''Y'' = Some ''Y''"
    by (simp_all add: findNextNode_def GetOutgoingEdges_def g_router_def spec_successor_def)
  have "node_status (after_completed ?w ?ev) 0 ''Y'' = Some ExecutionStatusRunning"
    "node_status (after_completed ?w ?ev) 0 ''X'' = Some ExecutionStatusPending"
    "new_topics ?w (after_completed ?w ?ev) = [TopicExecutorWork, TopicGraphEvents]"
    by (simp_all add: run_defs)
  with r s f h show ?thesis by simp
qed

text \<open>
  Claim C5, as the code has it. The handler reads the error of a completion event with
  the type assertion \<^verbatim>\<open>.(string)\<close>: an event carries an error, for the handler, when the
  value under \<open>error\<close> is a string. For such an event, for a record that is not terminal
  and a node that has a state, in a reachable world: the handler returns; in the record
  it leaves in the store the state of the node is failed, with the error of the event
  and completed now, and every other node state is as it was, so that a node that was
  pending is pending; the record is failed, completed now, and its error is the error of
  the event. Nothing is dispatched: what has been published is the failed event on the
  graph-events topic, if the bus accepts it, and nothing else.
\<close>

theorem C5_node_failure_fails_record:
  assumes "reachable w" "states w (ExecutionID ev) = Some st" "\<not> terminal (Status st)"
    and "n = fst (as_string (Data ev ''node_id''))" and "NodeStates st n = Some ns"
    and "as_string (Data ev ''error'') = (msg, True)"
    and "failed = graph_event (next_uuid w) (clock w) (ExecutionID ev) EventTypeGraphFailed
                    (if msg \<noteq> [] then [''error'' \<mapsto> VAny (AStr msg)] else Map.empty)"
  shows "\<exists>w' st'. handleNodeCompleted w ev = Some (None, w')
           \<and> states w' (ExecutionID ev) = Some st'
           \<and> NodeStates st' n
               = Some (ns\<lparr>NodeStatus := ExecutionStatusFailed, NodeCompletedAt := Some (clock w),
                          NodeError := msg\<rparr>)
           \<and> (\<forall>m. m \<noteq> n \<longrightarrow> NodeStates st' m = NodeStates st m)
           \<and> Status st' = ExecutionStatusFailed \<and> Error st' = msg
           \<and> CompletedAt st' = Some (clock w)
           \<and> published w' =
               published w @
               (if bus_rejects w TopicGraphEvents failed then [] else [(TopicGraphEvents, failed)])"
proof -
  from assms(1,2) have ok: "record_ok w (ExecutionID ev) st"
    using reachable_world_inv by (simp add: world_inv_def)
  with assms(3) have g: "GraphID st = ExecutionID ev" and e: "Error st = []"
    by (auto simp: record_ok_def)
  have h: "snd (as_string (Data ev ''error''))" "fst (as_string (Data ev ''error'')) = msg"
    by (simp_all add: assms(6))
  from handleNodeCompleted_failed [OF assms(2) assms(5) [unfolded assms(4)] h(1)] g e
  show ?thesis
    by (simp add: h(2) assms(4,7) completeGraph_fst completeGraph_published Let_def)
qed

text \<open>
  The line \<open>A\<close>, \<open>B\<close>, \<open>C\<close>: submitted, then \<open>B\<close> fails with \<open>boom\<close>. The record is failed
  with that error, \<open>B\<close> is failed, \<open>C\<close> is still pending, and the only new event is on the
  graph-events topic.
\<close>

theorem C5_node_failure_fails_record_witness:
  "reachable (after_submit w_init g_linear)
   \<and> record_status (after_submit w_init g_linear) 0 = Some ExecutionStatusRunning
   \<and> record_status (after_completed (after_submit w_init g_linear) (completion_error 0 ''B'' ''boom'')) 0
       = Some ExecutionStatusFailed
   \<and> map_option Error (states (after_completed (after_submit w_init g_linear)
                                  (completion_error 0 ''B'' ''boom'')) 0) = Some ''boom''
   \<and> node_status (after_completed (after_submit w_init g_linear) (completion_error 0 ''B'' ''boom'')) 0 ''B''
       = Some ExecutionStatusFailed
   \<and> node_status (after_completed (after_submit w_init g_linear) (completion_error 0 ''B'' ''boom'')) 0 ''C''
       = Some ExecutionStatusPending
   \<and> new_topics (after_submit w_init g_linear)
       (after_completed (after_submit w_init g_linear) (completion_error 0 ''B'' ''boom''))
       = [TopicGraphEvents]"
proof -
  let ?w = "after_submit w_init g_linear"
  let ?ev = "completion_error 0 ''B'' ''boom''"
  have r: "reachable ?w" by (intro after_submit_reachable w_init_reachable)
  have s: "record_status ?w 0 = Some ExecutionStatusRunning"
    and b: "node_status ?w 0 ''B'' = Some ExecutionStatusRunning"
    and c: "node_status ?w 0 ''C'' = Some ExecutionStatusPending"
    and u: "\<not> bus_rejects ?w TopicGraphEvents
              (graph_event (next_uuid ?w) (clock ?w) (ExecutionID ?ev) EventTypeGraphFailed
                 (if ''boom'' \<noteq> [] then [''error'' \<mapsto> VAny (AStr ''boom'')] else Map.empty))"
    by (simp_all add: run_defs)
  from s b obtain st ns where st: "states ?w (ExecutionID ?ev) = Some st"
    "Status st = ExecutionStatusRunning" "NodeStates st ''B'' = Some ns"
    by (auto simp: record_status_def node_status_def completion_error_def split: option.splits)
  from st(2) have nt: "\<not> terminal (Status st)" by (simp add: terminal_def)
  have n: "''B'' = fst (as_string (Data ?ev ''node_id''))"
    and e: "as_string (Data ?ev ''error'') = (''boom'', True)"
    by (simp_all add: completion_error_def as_string_def)
  from C5_node_failure_fails_record [OF r st(1) nt n st(3) e refl] u
  obtain w' st' where res: "handleNodeCompleted ?w ?ev = Some (None, w')"
    "states w' (ExecutionID ?ev) = Some st'"
    "NodeStates st' ''B'' = Some (ns\<lparr>NodeStatus := ExecutionStatusFailed,
                                      NodeCompletedAt := Some (clock ?w), NodeError := ''boom''\<rparr>)"
    "\<forall>m. m \<noteq> ''B'' \<longrightarrow> NodeStates st' m = NodeStates st m"
    "Status st' = ExecutionStatusFailed" "Error st' = ''boom''"
    "published w' = published ?w @ [(TopicGraphEvents,
        graph_event (next_uuid ?w) (clock ?w) (ExecutionID ?ev) EventTypeGraphFailed
          (if ''boom'' \<noteq> [] then [''error'' \<mapsto> VAny (AStr ''boom'')] else Map.empty))]"
    by auto
  have a: "after_completed ?w ?ev = w'" by (simp add: after_completed_def res(1))
  have z: "ExecutionID ?ev = 0" by (simp add: completion_error_def)
  from res(4) have "NodeStates st' ''C'' = NodeStates st ''C''" by simp
  with c st(1) z have c': "map_option NodeStatus (NodeStates st' ''C'') = Some ExecutionStatusPending"
    by (simp add: node_status_def)
  from res(2,3,5,6,7) c' z
  have "record_status w' 0 = Some ExecutionStatusFailed"
    "map_option Error (states w' 0) = Some ''boom''"
    "node_status w' 0 ''B'' = Some ExecutionStatusFailed"
    "node_status w' 0 ''C'' = Some ExecutionStatusPending"
    "new_topics ?w w' = [TopicGraphEvents]"
    by (simp_all add: record_status_def node_status_def new_topics_def)
  with r s a show ?thesis by simp
qed

text \<open>
  The claim as it is worded fails on an event whose error is not a string. The line \<open>A\<close>,
  \<open>B\<close>, \<open>C\<close>: submitted, then a completion of \<open>B\<close> arrives with the number 42 as its
  error. The assertion fails, the event is handled as a success: \<open>B\<close> is completed with
  no error, the end node \<open>C\<close> is dispatched and the record is completed.
\<close>

theorem C5_non_string_error_counterexample:
  "Data (completion_odd_error 0 ''B'') ''error'' = Some (VAny (ANum 42))
   \<and> record_status (after_submit w_init g_linear) 0 = Some ExecutionStatusRunning
   \<and> node_status (after_submit w_init g_linear) 0 ''B'' = Some ExecutionStatusRunning
   \<and> record_status (after_completed (after_submit w_init g_linear) (completion_odd_error 0 ''B'')) 0
       = Some ExecutionStatusCompleted
   \<and> map_option Error (states (after_completed (after_submit w_init g_linear)
                                  (completion_odd_error 0 ''B'')) 0) = Some []
   \<and> node_status (after_completed (after_submit w_init g_linear) (completion_odd_error 0 ''B'')) 0 ''B''
       = Some ExecutionStatusCompleted
   \<and> node_status (after_completed (after_submit w_init g_linear) (completion_odd_error 0 ''B'')) 0 ''C''
       = Some ExecutionStatusRunning"
  by (simp add: run_defs)

end
